theory Spec2Isabelle
  imports Complex_Main "HOL-Library.Word" "HOL-Library.Char_ord" "HOL-Library.List_Lexorder"
begin

section \<open>The V8 values that bypass.cc receives and hands back\<close>

text \<open>
  bypass.cc is a Node.js addon: everything it reads and everything it returns is a
  \<^verbatim>\<open>v8::Value\<close>. The JavaScript values are modelled as a datatype, the V8 calls the
  source makes as functions of the same name on it.

  A JavaScript number is an IEEE double. The code never computes with one: it only tests
  it (\<^verbatim>\<open>IsInt32\<close>), converts it to an integer (\<^verbatim>\<open>Int32Value\<close>, \<^verbatim>\<open>IntegerValue\<close>)
  and copies it, so a finite double is represented by the real number it denotes
  (positive and negative zero are not told apart, as \<^verbatim>\<open>==\<close> on doubles does not).
  A JavaScript string is a sequence of 16-bit code units. An array is the list of the
  values \<^verbatim>\<open>Get(i)\<close> returns for \<^verbatim>\<open>i < Length()\<close>; an object or a function is the
  list of its own enumerable properties, in the order \<^verbatim>\<open>GetPropertyNames\<close> lists
  them: for an object built by \<^verbatim>\<open>Set\<close> calls, the names that are array indices by
  ascending number, then the other names in the order of the calls. The value graph is
  a finite tree: a cyclic object is no value of this type.
\<close>

datatype double = Finite real | PlusInfinity | MinusInfinity | NaN

type_synonym uc16 = "16 word"

type_synonym v8_string = "uc16 list"

datatype v8_value =
    V8Undefined
  | V8Null
  | V8Boolean bool
  | V8Number double
  | V8String v8_string
  | V8Array "v8_value list"
  | V8Object "(v8_string \<times> v8_value) list"
  | V8Function "(v8_string \<times> v8_value) list"

subsection \<open>Type tests\<close>

fun IsNumber :: "v8_value \<Rightarrow> bool" where
  "IsNumber (V8Number d) = True"
| "IsNumber v = False"

text \<open>\<^verbatim>\<open>Value::IsInt32\<close>: a number whose value is an integer of the signed 32-bit range.\<close>

fun IsInt32 :: "v8_value \<Rightarrow> bool" where
  "IsInt32 (V8Number (Finite q)) =
     (real_of_int \<lfloor>q\<rfloor> = q \<and> - (2 ^ 31) \<le> \<lfloor>q\<rfloor> \<and> \<lfloor>q\<rfloor> < 2 ^ 31)"
| "IsInt32 v = False"

fun IsString :: "v8_value \<Rightarrow> bool" where
  "IsString (V8String s) = True"
| "IsString v = False"

fun IsArray :: "v8_value \<Rightarrow> bool" where
  "IsArray (V8Array xs) = True"
| "IsArray v = False"

text \<open>
  \<^verbatim>\<open>Value::IsObject\<close> holds for every JavaScript object: arrays and functions are
  objects for V8 too. \<^verbatim>\<open>null\<close> is not.
\<close>

fun IsObject :: "v8_value \<Rightarrow> bool" where
  "IsObject (V8Array xs) = True"
| "IsObject (V8Object ps) = True"
| "IsObject (V8Function ps) = True"
| "IsObject v = False"

subsection \<open>Numbers\<close>

text \<open>\<^verbatim>\<open>Number::NumberValue\<close> of a number, and the truncation towards zero of a real.\<close>

fun NumberValue :: "v8_value \<Rightarrow> double" where
  "NumberValue (V8Number d) = d"
| "NumberValue v = NaN"

definition trunc :: "real \<Rightarrow> int" where
  "trunc q = (if 0 \<le> q then \<lfloor>q\<rfloor> else \<lceil>q\<rceil>)"

text \<open>
  \<^verbatim>\<open>Value::Int32Value\<close> is ECMAScript's ToInt32: not-a-number and the infinities give 0,
  a finite number is truncated and reduced modulo \<open>2^32\<close>.
\<close>

fun Int32Value :: "v8_value \<Rightarrow> 32 word" where
  "Int32Value (V8Number (Finite q)) = word_of_int (trunc q)"
| "Int32Value v = 0"


definition Number_New :: "double \<Rightarrow> v8_value" where
  "Number_New d = V8Number d"

text \<open>
  The V8 interface of this code declares one constructor for integers,
  \<^verbatim>\<open>Integer::New(int32_t)\<close>; the classes \<^verbatim>\<open>Int32\<close> and \<^verbatim>\<open>Uint32\<close> derive from
  \<^verbatim>\<open>Integer\<close> and declare none of their own, so \<^verbatim>\<open>Int32::New(x)\<close> and
  \<^verbatim>\<open>Uint32::New(x)\<close> both call it, after the conversion of \<^verbatim>\<open>x\<close> to \<^verbatim>\<open>int32_t\<close>.
  The result is the JavaScript number of that signed value.
\<close>

definition Integer_New :: "32 word \<Rightarrow> v8_value" where
  "Integer_New w = V8Number (Finite (real_of_int (sint w)))"

subsection \<open>Strings\<close>

text \<open>
  \<^verbatim>\<open>Value::ToString\<close> of a string is the string. The source calls it on strings
  only; what it makes of other values is not modelled.
\<close>

fun ToString :: "v8_value \<Rightarrow> v8_string" where
  "ToString (V8String s) = s"
| "ToString v = []"

text \<open>
  \<^verbatim>\<open>unibrow::Utf8::Encode\<close> writes one code unit as one, two or three bytes (each
  half of a pair of code units for a character above U+FFFF as three bytes of its
  own); \<^verbatim>\<open>String::Utf8Length\<close> adds these lengths up.
\<close>

definition Utf8_Encode :: "uc16 \<Rightarrow> string" where
  "Utf8_Encode c =
     (let n = unat c in
      if n < 128 then [char_of n]
      else if n < 2048 then [char_of (192 + n div 64), char_of (128 + n mod 64)]
      else [char_of (224 + n div 4096), char_of (128 + n div 64 mod 64),
            char_of (128 + n mod 64)])"

fun Utf8Length :: "v8_string \<Rightarrow> nat" where
  "Utf8Length [] = 0"
| "Utf8Length (c # cs) = length (Utf8_Encode c) + Utf8Length cs"

text \<open>
  \<^verbatim>\<open>String::WriteUtf8(buffer, capacity)\<close>: the bytes written to the buffer. A character
  is written when all its bytes fit; the terminating NUL is written when the whole
  string was written and one more byte fits.
\<close>

fun WriteUtf8 :: "v8_string \<Rightarrow> nat \<Rightarrow> string" where
  "WriteUtf8 [] capacity = (if 0 < capacity then [CHR 0x00] else [])"
| "WriteUtf8 (c # cs) capacity =
     (if length (Utf8_Encode c) \<le> capacity
      then Utf8_Encode c @ WriteUtf8 cs (capacity - length (Utf8_Encode c))
      else [])"

text \<open>
  The UTF-8 decoder behind \<^verbatim>\<open>String::New\<close>. \<^verbatim>\<open>unibrow::Utf8::CalculateValue\<close>
  reads one character at the start of the bytes and returns its value with the number
  of bytes it took: a well-formed sequence of one to four bytes in its shortest form is
  taken whole, anything else gives U+FFFD and takes one byte. The string is built from
  these values one by one, and a value above U+FFFF, which has no code unit, is stored
  as U+FFFD.
\<close>

definition kBadChar :: uc16 where
  "kBadChar = 0xFFFD"

definition is_continuation :: "char \<Rightarrow> bool" where
  "is_continuation b = (128 \<le> (of_char b :: nat) \<and> (of_char b :: nat) < 192)"

fun Utf8_CalculateValue :: "string \<Rightarrow> nat \<times> nat" where
  "Utf8_CalculateValue [] = (65533, 0)"
| "Utf8_CalculateValue (b0 # r0) =
     (let first = of_char b0 :: nat in
      if first < 128 then (first, 1)
      else case r0 of
        [] \<Rightarrow> (65533, 1)
      | b1 # r1 \<Rightarrow>
          if \<not> is_continuation b1 then (65533, 1)
          else if first < 224 then
            (if first < 192 then (65533, 1)
             else let l = (first - 192) * 64 + (of_char b1 - 128) in
               if l < 128 then (65533, 1) else (l, 2))
          else case r1 of
            [] \<Rightarrow> (65533, 1)
          | b2 # r2 \<Rightarrow>
              if \<not> is_continuation b2 then (65533, 1)
              else if first < 240 then
                (let l = (first - 224) * 4096 + (of_char b1 - 128) * 64 + (of_char b2 - 128) in
                 if l < 2048 then (65533, 1) else (l, 3))
              else case r2 of
                [] \<Rightarrow> (65533, 1)
              | b3 # r3 \<Rightarrow>
                  if \<not> is_continuation b3 then (65533, 1)
                  else if first < 248 then
                    (let l = (first - 240) * 262144 + (of_char b1 - 128) * 4096
                           + (of_char b2 - 128) * 64 + (of_char b3 - 128) in
                     if l < 65536 then (65533, 1) else (l, 4))
                  else (65533, 1))"

function Utf8_Decode :: "string \<Rightarrow> v8_string" where
  "Utf8_Decode [] = []"
| "Utf8_Decode (b # bs) =
     (if 65535 < fst (Utf8_CalculateValue (b # bs)) then kBadChar
      else of_nat (fst (Utf8_CalculateValue (b # bs))))
     # Utf8_Decode (drop (snd (Utf8_CalculateValue (b # bs))) (b # bs))"
  by pat_completeness auto

termination Utf8_Decode
proof (relation "measure length")
  show "wf (measure (length :: string \<Rightarrow> nat))"
    by simp
next
  fix b :: char and bs :: string
  have "0 < snd (Utf8_CalculateValue (b # bs))"
    by (simp add: Let_def split: list.split)
  then show "(drop (snd (Utf8_CalculateValue (b # bs))) (b # bs), b # bs) \<in> measure length"
    by simp
qed

text \<open>\<^verbatim>\<open>String::New(data, length)\<close> decodes \<^verbatim>\<open>length\<close> bytes.\<close>

definition String_New :: "string \<Rightarrow> nat \<Rightarrow> v8_value" where
  "String_New data len = V8String (Utf8_Decode (take len data))"

text \<open>
  \<^verbatim>\<open>std::string::c_str\<close> read as a C string ends at the first NUL byte;
  \<^verbatim>\<open>String::New(data)\<close> decodes up to there.
\<close>

definition c_str :: "string \<Rightarrow> string" where
  "c_str s = takeWhile (\<lambda>b. b \<noteq> CHR 0x00) s"

definition String_New_cstr :: "string \<Rightarrow> v8_string" where
  "String_New_cstr data = Utf8_Decode (c_str data)"

text \<open>
  \<^verbatim>\<open>String::AsciiValue\<close> (through \<^verbatim>\<open>String::WriteAscii\<close>) keeps the low byte of every
  code unit and writes a space for a NUL; its \<^verbatim>\<open>length()\<close> is the number of code units.
\<close>

definition WriteAscii_char :: "uc16 \<Rightarrow> char" where
  "WriteAscii_char c = (if unat c mod 256 = 0 then CHR '' '' else char_of (unat c))"

definition AsciiValue :: "v8_string \<Rightarrow> string" where
  "AsciiValue k = map WriteAscii_char k"

subsection \<open>Arrays and objects\<close>

text \<open>
  \<^verbatim>\<open>Object::Set(key, value)\<close> on an object given by its property list. A name is an
  array index when it is the decimal numeral of a number below \<open>2^32 - 1\<close>, without
  leading zeros. V8 keeps the properties with such names apart and enumerates them
  first, by ascending number; the other names follow in the order in which they were
  added. Setting an existing name changes its value and leaves it where it is. Setting
  the name \<^verbatim>\<open>__proto__\<close> adds no property: it runs the setter of the prototype link,
  which is no part of the property list (no statement below is about an object with
  this name).
\<close>

function digits_of :: "nat \<Rightarrow> v8_string" where
  "digits_of n =
     (if n < 10 then [of_nat (48 + n)] else digits_of (n div 10) @ [of_nat (48 + n mod 10)])"
  by pat_completeness auto

termination digits_of
  by (relation "measure id") auto

declare digits_of.simps [simp del]

definition digits_value :: "v8_string \<Rightarrow> nat" where
  "digits_value k = foldl (\<lambda>n c. 10 * n + (unat c - 48)) 0 k"

definition array_index :: "v8_string \<Rightarrow> nat option" where
  "array_index k =
     (if k = digits_of (digits_value k) \<and> digits_value k < 4294967295
      then Some (digits_value k) else None)"

definition element_index :: "v8_string \<times> v8_value \<Rightarrow> nat" where
  "element_index p = (case array_index (fst p) of Some n \<Rightarrow> n | None \<Rightarrow> 0)"

definition proto_name :: v8_string where
  "proto_name = [0x5F, 0x5F, 0x70, 0x72, 0x6F, 0x74, 0x6F, 0x5F, 0x5F]"

fun insert_element :: "v8_string \<times> v8_value \<Rightarrow> (v8_string \<times> v8_value) list
    \<Rightarrow> (v8_string \<times> v8_value) list" where
  "insert_element e [] = [e]"
| "insert_element e (p # ps) =
     (if array_index (fst p) = None \<or> element_index e \<le> element_index p then e # p # ps
      else p # insert_element e ps)"

definition Object_Set :: "v8_string \<Rightarrow> v8_value \<Rightarrow> (v8_string \<times> v8_value) list
    \<Rightarrow> (v8_string \<times> v8_value) list" where
  "Object_Set k v obj =
     (if k = proto_name then obj
      else if k \<in> set (map fst obj) then map (\<lambda>p. if fst p = k then (k, v) else p) obj
      else if array_index k = None then obj @ [(k, v)]
      else insert_element (k, v) obj)"

text \<open>What \<^verbatim>\<open>arr->Get(i)\<close>, and \<^verbatim>\<open>GetPropertyNames\<close> with \<^verbatim>\<open>o->Get(k)\<close>, enumerate.\<close>

fun Elements :: "v8_value \<Rightarrow> v8_value list" where
  "Elements (V8Array xs) = xs"
| "Elements v = []"

fun Properties :: "v8_value \<Rightarrow> (v8_string \<times> v8_value) list" where
  "Properties (V8Object ps) = ps"
| "Properties (V8Function ps) = ps"
| "Properties v = []"

section \<open>The owned value tree\<close>

text \<open>
  The classes derived from \<^verbatim>\<open>JsValue\<close>, one constructor each, with their members.
  Every shared pointer to a \<^verbatim>\<open>JsValue\<close> in the code is initialised from a \<^verbatim>\<open>new\<close>
  expression and never reset, so a pointer is modelled by the value it owns (the
  \<^verbatim>\<open>if (val)\<close> guards of the two \<^verbatim>\<open>to_v8\<close> loops always pass).
\<close>

datatype JsValue =
    JsUndefined
  | JsString (m_buff: string) (m_size: nat)
  | JsNumber double
  | JsInt32 "32 word"
  | JsUint32 "32 word"
  | JsArray "JsValue list"
  | JsObj "(string \<times> JsValue) list"

subsection \<open>\<^verbatim>\<open>std::map\<close>\<close>

text \<open>
  A \<^verbatim>\<open>std::map\<close> is represented by the list of its entries in iteration order, which
  is the ascending order of the keys. \<^verbatim>\<open>m[k] = v\<close> replaces the value of an existing
  key and inserts a new key at its place in the order; \<^verbatim>\<open>find\<close> returns the entry of
  the key, \<^verbatim>\<open>erase(k)\<close> removes it.
\<close>

fun map_assign :: "'k::linorder \<Rightarrow> 'v \<Rightarrow> ('k \<times> 'v) list \<Rightarrow> ('k \<times> 'v) list" where
  "map_assign k v [] = [(k, v)]"
| "map_assign k v (p # ps) =
     (if k < fst p then (k, v) # p # ps
      else if k = fst p then (k, v) # ps
      else p # map_assign k v ps)"

fun map_find :: "'k \<Rightarrow> ('k \<times> 'v) list \<Rightarrow> 'v option" where
  "map_find k [] = None"
| "map_find k (p # ps) = (if fst p = k then Some (snd p) else map_find k ps)"

definition map_erase :: "'k \<Rightarrow> ('k \<times> 'v) list \<Rightarrow> ('k \<times> 'v) list" where
  "map_erase k m = filter (\<lambda>p. fst p \<noteq> k) m"

text \<open>The well-formed maps: keys strictly ascending.\<close>

definition map_ok :: "('k::linorder \<times> 'v) list \<Rightarrow> bool" where
  "map_ok m = sorted_wrt (<) (map fst m)"

section \<open>Encoding: \<^verbatim>\<open>from_v8\<close>\<close>

text \<open>
  \<^verbatim>\<open>JsString::from_v8\<close> allocates \<^verbatim>\<open>Utf8Length()\<close> bytes and lets \<^verbatim>\<open>WriteUtf8\<close>
  fill them. \<^verbatim>\<open>JsNumber::from_v8\<close> and \<^verbatim>\<open>JsInt32::from_v8\<close> read the number.
  \<^verbatim>\<open>JsUint32::from_v8\<close> is defined by the source and called nowhere in it.
\<close>

definition JsString_from_v8 :: "v8_string \<Rightarrow> JsValue" where
  "JsString_from_v8 val = JsString (WriteUtf8 val (Utf8Length val)) (Utf8Length val)"

definition JsNumber_from_v8 :: "v8_value \<Rightarrow> JsValue" where
  "JsNumber_from_v8 val = JsNumber (NumberValue val)"

definition JsInt32_from_v8 :: "v8_value \<Rightarrow> JsValue" where
  "JsInt32_from_v8 val = JsInt32 (Int32Value val)"


text \<open>
  The loop of \<^verbatim>\<open>JsObj::from_v8\<close>, over the property names in order: the name goes
  through \<^verbatim>\<open>String::AsciiValue\<close> into a \<^verbatim>\<open>std::string\<close> of \<^verbatim>\<open>key.length()\<close>
  bytes and \<^verbatim>\<open>m_values[s]\<close> is assigned the encoded value.
\<close>

definition JsObj_insert :: "(string \<times> JsValue) list \<Rightarrow> v8_string \<times> JsValue
    \<Rightarrow> (string \<times> JsValue) list" where
  "JsObj_insert m_values p = map_assign (AsciiValue (fst p)) (snd p) m_values"

definition JsObj_loop :: "(v8_string \<times> JsValue) list \<Rightarrow> (string \<times> JsValue) list" where
  "JsObj_loop ps = foldl JsObj_insert [] ps"

text \<open>
  The global \<^verbatim>\<open>from_v8\<close>, with the tests in the order of the source.
  \<^verbatim>\<open>JsArray::from_v8\<close> encodes \<^verbatim>\<open>arr->Get(i)\<close> for \<^verbatim>\<open>i = 0 .. Length() - 1\<close> and
  appends each result; \<^verbatim>\<open>JsObj::from_v8\<close> encodes \<^verbatim>\<open>o->Get(k)\<close> for each property
  name and runs the loop above.
\<close>

function from_v8 :: "v8_value \<Rightarrow> JsValue" where
  "from_v8 v8obj =
     (if IsNumber v8obj then
        (if IsInt32 v8obj then JsInt32_from_v8 v8obj else JsNumber_from_v8 v8obj)
      else if IsString v8obj then JsString_from_v8 (ToString v8obj)
      else if IsArray v8obj then JsArray (map from_v8 (Elements v8obj))
      else if IsObject v8obj then
        JsObj (JsObj_loop (map (\<lambda>p. (fst p, from_v8 (snd p))) (Properties v8obj)))
      else JsUndefined)"
  by pat_completeness auto

termination from_v8
proof (relation "measure size")
  show "wf (measure (size :: v8_value \<Rightarrow> nat))"
    by simp
next
  fix v8obj x :: v8_value
  assume a: "IsArray v8obj" and x: "x \<in> set (Elements v8obj)"
  have "size y < Suc (size_list size ys)" if "y \<in> set ys" for y :: v8_value and ys
    using that by (induction ys) auto
  with a x show "(x, v8obj) \<in> measure size"
    by (cases v8obj) auto
next
  fix v8obj :: v8_value and p :: "v8_string \<times> v8_value"
  assume o: "IsObject v8obj" and p: "p \<in> set (Properties v8obj)"
  have "size (snd q) < Suc (size_list (\<lambda>r. Suc (size (snd r))) qs)"
    if "q \<in> set qs" for q :: "v8_string \<times> v8_value" and qs
    using that by (induction qs) auto
  with o p show "(snd p, v8obj) \<in> measure size"
    by (cases v8obj) (auto simp: size_prod_simp)
qed

declare from_v8.simps [simp del]

section \<open>Decoding: \<^verbatim>\<open>to_v8\<close>\<close>

text \<open>
  The loop of \<^verbatim>\<open>JsObj::to_v8\<close>, over \<^verbatim>\<open>m_values\<close> in iteration order: the key is
  \<^verbatim>\<open>String::New(iter->first.c_str())\<close>, the property is set on the result object.
\<close>

definition JsObj_set :: "(v8_string \<times> v8_value) list \<Rightarrow> string \<times> v8_value
    \<Rightarrow> (v8_string \<times> v8_value) list" where
  "JsObj_set obj p = Object_Set (String_New_cstr (fst p)) (snd p) obj"

definition JsObj_to_v8_loop :: "(string \<times> v8_value) list \<Rightarrow> (v8_string \<times> v8_value) list" where
  "JsObj_to_v8_loop m_values = foldl JsObj_set [] m_values"

text \<open>
  The virtual \<^verbatim>\<open>to_v8\<close>, one equation for each class. \<^verbatim>\<open>JsArray::to_v8\<close> sets the
  index \<^verbatim>\<open>i\<close> of a new array of \<^verbatim>\<open>m_vals.size()\<close> elements for every \<^verbatim>\<open>i\<close>.
\<close>

fun to_v8 :: "JsValue \<Rightarrow> v8_value" where
  "to_v8 JsUndefined = V8Undefined"
| "to_v8 (JsString buff sz) = String_New buff sz"
| "to_v8 (JsNumber m_val) = Number_New m_val"
| "to_v8 (JsInt32 m_val) = Integer_New m_val"
| "to_v8 (JsUint32 m_val) = Integer_New m_val"
| "to_v8 (JsArray m_vals) = V8Array (map to_v8 m_vals)"
| "to_v8 (JsObj m_values) =
     V8Object (JsObj_to_v8_loop (map (\<lambda>p. (fst p, to_v8 (snd p))) m_values))"

section \<open>The store\<close>

text \<open>
  \<^verbatim>\<open>Value::IntegerValue\<close> reads the key. A number is converted by a static cast
  from double to the 64-bit signed integer type; any other value goes through
  ECMAScript's ToInteger first, which is ToNumber followed by truncation, with
  not-a-number giving 0. ToNumber of \<^verbatim>\<open>undefined\<close> is not-a-number, of \<^verbatim>\<open>null\<close> 0,
  of a boolean 0 or 1. ToNumber of a string parses it and ToNumber of an object calls
  the object's own conversion methods; neither is code of this program, and the
  function \<open>prim\<close> stands for both.

  The 64-bit keys are integers of the range \<open>- 2^63 .. 2^63 - 1\<close>, ordered as
  integers. The cast of a double outside this range, or of not-a-number, is left open
  by C++; the model gives it the value the conversion instruction of x86-64 returns.
\<close>

type_synonym int64 = int

fun ToNumber :: "(v8_value \<Rightarrow> double) \<Rightarrow> v8_value \<Rightarrow> double" where
  "ToNumber prim V8Undefined = NaN"
| "ToNumber prim V8Null = Finite 0"
| "ToNumber prim (V8Boolean b) = Finite (if b then 1 else 0)"
| "ToNumber prim (V8Number d) = d"
| "ToNumber prim v = prim v"

fun ToInteger :: "double \<Rightarrow> double" where
  "ToInteger NaN = Finite 0"
| "ToInteger (Finite q) = Finite (real_of_int (trunc q))"
| "ToInteger d = d"

fun double_to_int64 :: "double \<Rightarrow> int64" where
  "double_to_int64 (Finite q) =
     (if - (2 ^ 63) \<le> trunc q \<and> trunc q < 2 ^ 63 then trunc q else - (2 ^ 63))"
| "double_to_int64 d = - (2 ^ 63)"

definition IntegerValue :: "(v8_value \<Rightarrow> double) \<Rightarrow> v8_value \<Rightarrow> int64" where
  "IntegerValue prim v =
     (if IsNumber v then double_to_int64 (NumberValue v)
      else double_to_int64 (ToInteger (ToNumber prim v)))"

text \<open>\<^verbatim>\<open>args[i]\<close>: the argument, or \<^verbatim>\<open>undefined\<close> when the call passed fewer.\<close>

definition Arguments_get :: "v8_value list \<Rightarrow> nat \<Rightarrow> v8_value" where
  "Arguments_get args i = (if i < length args then args ! i else V8Undefined)"

text \<open>
  The store object holds \<^verbatim>\<open>m_cache\<close>, a \<^verbatim>\<open>std::map\<close> from 64-bit keys to values.
  Each method takes the store and the arguments of the call and returns the value
  handed to JavaScript with the store after the call. \<^verbatim>\<open>Set\<close> and \<^verbatim>\<open>Del\<close> return
  an empty handle, which the caller sees as \<^verbatim>\<open>undefined\<close>.
\<close>

record BypassStore =
  m_cache :: "(int64 \<times> JsValue) list"

definition BypassStore_New :: BypassStore where
  "BypassStore_New = \<lparr>m_cache = []\<rparr>"

definition BypassStore_Set :: "(v8_value \<Rightarrow> double) \<Rightarrow> BypassStore \<Rightarrow> v8_value list
    \<Rightarrow> v8_value \<times> BypassStore" where
  "BypassStore_Set prim store args =
     (let key = Arguments_get args 0;
          val = Arguments_get args 1;
          k = IntegerValue prim key
      in (V8Undefined, store\<lparr>m_cache := map_assign k (from_v8 val) (m_cache store)\<rparr>))"

definition BypassStore_Get :: "(v8_value \<Rightarrow> double) \<Rightarrow> BypassStore \<Rightarrow> v8_value list
    \<Rightarrow> v8_value \<times> BypassStore" where
  "BypassStore_Get prim store args =
     (let key = Arguments_get args 0;
          k = IntegerValue prim key
      in case map_find k (m_cache store) of
           None \<Rightarrow> (V8Undefined, store)
         | Some v \<Rightarrow> (to_v8 v, store))"

definition BypassStore_Del :: "(v8_value \<Rightarrow> double) \<Rightarrow> BypassStore \<Rightarrow> v8_value list
    \<Rightarrow> v8_value \<times> BypassStore" where
  "BypassStore_Del prim store args =
     (let key = Arguments_get args 0;
          k = IntegerValue prim key
      in (V8Undefined, store\<lparr>m_cache := map_erase k (m_cache store)\<rparr>))"

text \<open>
  \<^verbatim>\<open>List\<close> passes each 64-bit key to \<^verbatim>\<open>Int32::New\<close>, that is to
  \<^verbatim>\<open>Integer::New(int32_t)\<close>: the key is converted to 32 bits on the way.
\<close>

definition BypassStore_List :: "BypassStore \<Rightarrow> v8_value list \<Rightarrow> v8_value \<times> BypassStore" where
  "BypassStore_List store args =
     (V8Array (map (\<lambda>p. Integer_New (word_of_int (fst p))) (m_cache store)), store)"

text \<open>Sequences of calls on one store, from the JavaScript side.\<close>

datatype call =
    CallSet "v8_value list"
  | CallGet "v8_value list"
  | CallDel "v8_value list"
  | CallList "v8_value list"

fun exec_call :: "(v8_value \<Rightarrow> double) \<Rightarrow> BypassStore \<Rightarrow> call \<Rightarrow> v8_value \<times> BypassStore" where
  "exec_call prim store (CallSet args) = BypassStore_Set prim store args"
| "exec_call prim store (CallGet args) = BypassStore_Get prim store args"
| "exec_call prim store (CallDel args) = BypassStore_Del prim store args"
| "exec_call prim store (CallList args) = BypassStore_List store args"

fun run :: "(v8_value \<Rightarrow> double) \<Rightarrow> BypassStore \<Rightarrow> call list \<Rightarrow> BypassStore" where
  "run prim store [] = store"
| "run prim store (c # cs) = run prim (snd (exec_call prim store c)) cs"

section \<open>Notions the claims are stated with\<close>

text \<open>The number of \<^verbatim>\<open>JsUint32\<close> nodes of a value tree.\<close>

fun count_Uint32 :: "JsValue \<Rightarrow> nat" where
  "count_Uint32 (JsUint32 w) = 1"
| "count_Uint32 (JsArray m_vals) = sum_list (map count_Uint32 m_vals)"
| "count_Uint32 (JsObj m_values) = sum_list (map (\<lambda>p. count_Uint32 (snd p)) m_values)"
| "count_Uint32 v = 0"

text \<open>
  A conversion under which no string and no object converts to a number, for closed
  examples.
\<close>

definition prim_NaN :: "v8_value \<Rightarrow> double" where
  "prim_NaN v = NaN"

text \<open>No \<^verbatim>\<open>set\<close> call of the sequence has a key that reads as \<open>k\<close>.\<close>

fun never_set :: "(v8_value \<Rightarrow> double) \<Rightarrow> int64 \<Rightarrow> call list \<Rightarrow> bool" where
  "never_set prim k [] = True"
| "never_set prim k (CallSet args # cs) =
     (IntegerValue prim (Arguments_get args 0) \<noteq> k \<and> never_set prim k cs)"
| "never_set prim k (c # cs) = never_set prim k cs"

text \<open>
  Property names that \<^verbatim>\<open>String::AsciiValue\<close> hands over unchanged: every code unit
  is an ASCII character other than NUL.
\<close>

definition ascii_key :: "v8_string \<Rightarrow> bool" where
  "ascii_key k = list_all (\<lambda>c. 0 < unat c \<and> unat c < 128) k"

fun ascii_keys :: "v8_value \<Rightarrow> bool" where
  "ascii_keys (V8Array xs) = list_all ascii_keys xs"
| "ascii_keys (V8Object ps) = list_all (\<lambda>p. ascii_key (fst p) \<and> ascii_keys (snd p)) ps"
| "ascii_keys (V8Function ps) = list_all (\<lambda>p. ascii_key (fst p) \<and> ascii_keys (snd p)) ps"
| "ascii_keys v = True"

text \<open>
  The values built only from numbers, strings, arrays and plain objects; the property
  names of a JavaScript object are distinct.
\<close>

fun plain :: "v8_value \<Rightarrow> bool" where
  "plain (V8Number d) = True"
| "plain (V8String s) = True"
| "plain (V8Array xs) = list_all plain xs"
| "plain (V8Object ps) = (distinct (map fst ps) \<and> list_all (\<lambda>p. plain (snd p)) ps)"
| "plain v = False"

text \<open>
  Structural equality of two V8 values: the same kind of value, equal numbers and
  strings, arrays equal element by element, objects with the same names and
  structurally equal values under each name, whatever the order of the names. It is
  decided on a normal form that lists the properties of every object by ascending name.
\<close>

fun canon :: "v8_value \<Rightarrow> v8_value" where
  "canon (V8Array xs) = V8Array (map canon xs)"
| "canon (V8Object ps) = V8Object (sort_key fst (map (\<lambda>p. (fst p, canon (snd p))) ps))"
| "canon (V8Function ps) = V8Function (sort_key fst (map (\<lambda>p. (fst p, canon (snd p))) ps))"
| "canon v = v"

definition struct_eq :: "v8_value \<Rightarrow> v8_value \<Rightarrow> bool" where
  "struct_eq a b = (canon a = canon b)"

text \<open>
  The order in which V8 enumerates an object with the properties \<open>ps\<close>, added in
  this order under distinct names: the array indices by ascending number, then the
  other names as they were added.
\<close>

definition is_array_index :: "v8_string \<times> v8_value \<Rightarrow> bool" where
  "is_array_index p = (array_index (fst p) \<noteq> None)"

definition enumeration_order :: "(v8_string \<times> v8_value) list \<Rightarrow> (v8_string \<times> v8_value) list" where
  "enumeration_order ps =
     sort_key element_index (filter is_array_index ps) @ filter (\<lambda>p. \<not> is_array_index p) ps"

text \<open>No object of the value, at any depth, has a property named \<^verbatim>\<open>__proto__\<close>.\<close>

fun proto_free :: "v8_value \<Rightarrow> bool" where
  "proto_free (V8Array xs) = list_all proto_free xs"
| "proto_free (V8Object ps) = list_all (\<lambda>p. fst p \<noteq> proto_name \<and> proto_free (snd p)) ps"
| "proto_free (V8Function ps) = list_all (\<lambda>p. fst p \<noteq> proto_name \<and> proto_free (snd p)) ps"
| "proto_free v = True"

section \<open>Basic facts\<close>

subsection \<open>The encoder on each kind of value\<close>

text \<open>
  The equations of \<^verbatim>\<open>from_v8\<close>, read off its definition.
\<close>

lemma from_v8_Number:
  "from_v8 (V8Number d) =
     (if IsInt32 (V8Number d) then JsInt32 (Int32Value (V8Number d)) else JsNumber d)"
  by (subst from_v8.simps) (simp add: JsInt32_from_v8_def JsNumber_from_v8_def)

lemma from_v8_String:
  "from_v8 (V8String s) = JsString (WriteUtf8 s (Utf8Length s)) (Utf8Length s)"
  by (subst from_v8.simps) (simp add: JsString_from_v8_def)

lemma from_v8_Array: "from_v8 (V8Array xs) = JsArray (map from_v8 xs)"
  by (subst from_v8.simps) simp

lemma from_v8_Object:
  "from_v8 (V8Object ps) = JsObj (JsObj_loop (map (\<lambda>p. (fst p, from_v8 (snd p))) ps))"
  by (subst from_v8.simps) simp

lemma from_v8_Function:
  "from_v8 (V8Function ps) = JsObj (JsObj_loop (map (\<lambda>p. (fst p, from_v8 (snd p))) ps))"
  by (subst from_v8.simps) simp

lemma from_v8_Undefined: "from_v8 V8Undefined = JsUndefined"
  by (subst from_v8.simps) simp

lemma from_v8_Null: "from_v8 V8Null = JsUndefined"
  by (subst from_v8.simps) simp

lemma from_v8_Boolean: "from_v8 (V8Boolean b) = JsUndefined"
  by (subst from_v8.simps) simp

lemmas from_v8_eqs = from_v8_Number from_v8_String from_v8_Array from_v8_Object
  from_v8_Function from_v8_Undefined from_v8_Null from_v8_Boolean

subsection \<open>The map operations\<close>

text \<open>
  Lookup after assignment and erasure, and the order of the entries: assignment and
  erasure keep the keys strictly ascending.
\<close>

lemma set_map_assign_subset: "set (map_assign k v m) \<subseteq> insert (k, v) (set m)"
  by (induction m) auto

lemma map_find_assign_same: "map_find k (map_assign k v m) = Some v"
  by (induction m) auto

lemma map_find_assign_other: "k' \<noteq> k \<Longrightarrow> map_find k' (map_assign k v m) = map_find k' m"
  by (induction m) auto

lemma map_assign_twice: "map_assign k v2 (map_assign k v1 m) = map_assign k v2 m"
  by (induction m) auto

lemma map_find_erase_same: "map_find k (map_erase k m) = None"
  by (induction m) (auto simp: map_erase_def)

lemma map_find_erase_other: "k' \<noteq> k \<Longrightarrow> map_find k' (map_erase k m) = map_find k' m"
  by (induction m) (auto simp: map_erase_def)

lemma map_erase_absent: "map_find k m = None \<Longrightarrow> map_erase k m = m"
  by (induction m) (auto simp: map_erase_def split: if_splits)

lemma map_find_erase_None: "map_find k m = None \<Longrightarrow> map_find k (map_erase k' m) = None"
  by (induction m) (auto simp: map_erase_def split: if_splits)

lemma fst_set_map_assign: "fst ` set (map_assign k v m) = insert k (fst ` set m)"
  by (induction m) auto

lemma map_ok_Cons: "map_ok (p # m) = ((\<forall>q \<in> set m. fst p < fst q) \<and> map_ok m)"
  by (auto simp: map_ok_def)

lemma map_ok_assign: "map_ok m \<Longrightarrow> map_ok (map_assign k v m)"
proof (induction m)
  case Nil
  show ?case by (simp add: map_ok_def)
next
  case (Cons p m)
  from Cons.prems have p: "\<forall>q \<in> set m. fst p < fst q" and m: "map_ok m"
    by (simp_all add: map_ok_Cons)
  show ?case
  proof (cases "k < fst p")
    case True
    with p have "\<forall>q \<in> set (p # m). k < fst q" by auto
    with True Cons.prems show ?thesis by (simp add: map_ok_Cons)
  next
    case False
    show ?thesis
    proof (cases "k = fst p")
      case True
      with False p m show ?thesis by (simp add: map_ok_Cons)
    next
      case ne: False
      with False have lt: "fst p < k" by simp
      have "\<forall>q \<in> set (map_assign k v m). fst p < fst q"
      proof
        fix q assume "q \<in> set (map_assign k v m)"
        then have "fst q \<in> insert k (fst ` set m)"
          using fst_set_map_assign [of k v m] by auto
        with lt p show "fst p < fst q" by auto
      qed
      with False ne Cons.IH [OF m] show ?thesis by (simp add: map_ok_Cons)
    qed
  qed
qed

lemma set_map_assign:
  "map_ok m \<Longrightarrow> set (map_assign k v m) = insert (k, v) {p \<in> set m. fst p \<noteq> k}"
proof (induction m)
  case Nil
  show ?case by simp
next
  case (Cons p m)
  from Cons.prems have p: "\<forall>q \<in> set m. fst p < fst q" and m: "map_ok m"
    by (simp_all add: map_ok_Cons)
  show ?case
  proof (cases "k < fst p")
    case True
    with p have "\<forall>q \<in> set (p # m). fst q \<noteq> k" by auto
    with True show ?thesis by auto
  next
    case False
    show ?thesis
    proof (cases "k = fst p")
      case True
      with p have "\<forall>q \<in> set m. fst q \<noteq> k" by auto
      with True show ?thesis by auto
    next
      case ne: False
      with False Cons.IH [OF m] show ?thesis by auto
    qed
  qed
qed

lemma map_ok_erase: "map_ok m \<Longrightarrow> map_ok (map_erase k m)"
  by (simp add: map_ok_def map_erase_def sorted_wrt_map sorted_wrt_filter)

lemma map_find_None_iff: "(map_find k m = None) = (k \<notin> fst ` set m)"
  by (induction m) auto

subsection \<open>Numbers\<close>

text \<open>
  A number survives encoding and decoding: a 32-bit integer through \<^verbatim>\<open>JsInt32\<close>,
  anything else as the double it is.
\<close>

lemma trunc_of_int [simp]: "trunc (real_of_int i) = i"
  by (simp add: trunc_def)

lemma trunc_numeral [simp]: "trunc (numeral n) = numeral n" "trunc 0 = 0" "trunc 1 = 1"
  by (simp_all add: trunc_def)

lemma sint_word_of_int_32:
  "- (2 ^ 31) \<le> i \<Longrightarrow> i < 2 ^ 31 \<Longrightarrow> sint (word_of_int i :: 32 word) = i"
  by (simp add: sint_sbintrunc' signed_take_bit_int_eq_self)

lemma sint_eq_uint_32: "uint u < 2 ^ 31 \<Longrightarrow> sint u = uint u" for u :: "32 word"
proof -
  assume "uint u < 2 ^ 31"
  moreover have "- (2 ^ 31) \<le> uint u"
    by (rule order_trans [OF _ uint_ge_0]) simp
  ultimately have "signed_take_bit 31 (uint u) = uint u"
    by (rule signed_take_bit_int_eq_self [rotated])
  then show ?thesis by (simp add: sint_uint)
qed

lemma IsInt32_iff:
  "IsInt32 (V8Number d) = (\<exists>i. d = Finite (real_of_int i) \<and> - (2 ^ 31) \<le> i \<and> i < 2 ^ 31)"
proof (cases d)
  case (Finite q)
  show ?thesis
  proof
    assume "IsInt32 (V8Number d)"
    then have "real_of_int \<lfloor>q\<rfloor> = q \<and> - (2 ^ 31) \<le> \<lfloor>q\<rfloor> \<and> \<lfloor>q\<rfloor> < 2 ^ 31"
      unfolding Finite IsInt32.simps .
    with Finite have "d = Finite (real_of_int \<lfloor>q\<rfloor>) \<and> - (2 ^ 31) \<le> \<lfloor>q\<rfloor> \<and> \<lfloor>q\<rfloor> < 2 ^ 31"
      by (simp only:)
    then show "\<exists>i. d = Finite (real_of_int i) \<and> - (2 ^ 31) \<le> i \<and> i < 2 ^ 31" ..
  next
    assume "\<exists>i. d = Finite (real_of_int i) \<and> - (2 ^ 31) \<le> i \<and> i < 2 ^ 31"
    then show "IsInt32 (V8Number d)" by auto
  qed
qed simp_all

lemma Number_roundtrip: "to_v8 (from_v8 (V8Number d)) = V8Number d"
proof (cases "IsInt32 (V8Number d)")
  case True
  then obtain i where i: "d = Finite (real_of_int i)" "- (2 ^ 31) \<le> i" "i < 2 ^ 31"
    unfolding IsInt32_iff by blast
  have "Int32Value (V8Number d) = word_of_int i"
    using i(1) by simp
  with True i show ?thesis
    by (simp add: from_v8_Number Integer_New_def sint_word_of_int_32)
next
  case False
  then show ?thesis
    by (simp add: from_v8_Number Number_New_def)
qed

subsection \<open>Strings\<close>

text \<open>
  Decoding the bytes \<^verbatim>\<open>WriteUtf8\<close> wrote gives the code units back, one sequence of
  one, two or three bytes at a time.
\<close>

lemma WriteUtf8_exact: "WriteUtf8 s (Utf8Length s) = concat (map Utf8_Encode s)"
  by (induction s) simp_all

lemma Utf8Length_concat: "Utf8Length s = length (concat (map Utf8_Encode s))"
  by (induction s) simp_all

lemma Utf8_Decode_one:
  "(of_char b0 :: nat) < 128 \<Longrightarrow> Utf8_Decode (b0 # bs) = of_nat (of_char b0) # Utf8_Decode bs"
proof (cases bs)
  case Nil
  then show "(of_char b0 :: nat) < 128 \<Longrightarrow> ?thesis" by simp
next
  case (Cons b1 bs1)
  then show "(of_char b0 :: nat) < 128 \<Longrightarrow> ?thesis" by (cases bs1) simp_all
qed

lemma Utf8_Decode_two:
  assumes "192 \<le> (of_char b0 :: nat)" and "(of_char b0 :: nat) < 224"
    and "is_continuation b1"
    and "128 \<le> (of_char b0 - 192) * 64 + (of_char b1 - 128 :: nat)"
  shows "Utf8_Decode (b0 # b1 # bs)
    = of_nat ((of_char b0 - 192) * 64 + (of_char b1 - 128)) # Utf8_Decode bs"
proof -
  let ?l = "(of_char b0 - 192) * 64 + (of_char b1 - 128 :: nat)"
  have cv: "Utf8_CalculateValue (b0 # b1 # bs) = (?l, 2)"
    using assms by (simp add: Let_def)
  have "?l \<le> 65535"
    using assms(2,3) unfolding is_continuation_def by arith
  then have "\<not> 65535 < ?l"
    by simp
  then show ?thesis
    by (simp only: Utf8_Decode.simps cv fst_conv snd_conv if_False) simp
qed

lemma Utf8_Decode_three:
  assumes "224 \<le> (of_char b0 :: nat)" and "(of_char b0 :: nat) < 240"
    and "is_continuation b1" and "is_continuation b2"
    and "2048 \<le> (of_char b0 - 224) * 4096 + (of_char b1 - 128) * 64 + (of_char b2 - 128 :: nat)"
  shows "Utf8_Decode (b0 # b1 # b2 # bs)
    = of_nat ((of_char b0 - 224) * 4096 + (of_char b1 - 128) * 64 + (of_char b2 - 128))
      # Utf8_Decode bs"
proof -
  let ?l = "(of_char b0 - 224) * 4096 + (of_char b1 - 128) * 64 + (of_char b2 - 128 :: nat)"
  have cv: "Utf8_CalculateValue (b0 # b1 # b2 # bs) = (?l, 3)"
    using assms by (simp add: Let_def)
  have "?l \<le> 65535"
    using assms(2,3,4) unfolding is_continuation_def by arith
  then have "\<not> 65535 < ?l"
    by simp
  then show ?thesis
    by (simp only: Utf8_Decode.simps cv fst_conv snd_conv if_False) simp
qed

lemma utf8_three_parts: "n div 4096 * 4096 + n div 64 mod 64 * 64 + n mod 64 = (n::nat)"
proof -
  define m where "m = n div 64"
  have d: "a * 4096 + b * 64 = (a * 64 + b) * 64" for a b :: nat
    by simp
  have "n div 4096 = m div 64"
    by (simp add: m_def div_mult2_eq)
  then have "n div 4096 * 4096 + n div 64 mod 64 * 64 = (m div 64 * 64 + m mod 64) * 64"
    unfolding m_def [symmetric] by (simp only: d)
  also have "m div 64 * 64 + m mod 64 = m"
    by (rule div_mult_mod_eq)
  finally have "n div 4096 * 4096 + n div 64 mod 64 * 64 + n mod 64 = m * 64 + n mod 64"
    by simp
  also have "m * 64 + n mod 64 = n"
    unfolding m_def by (rule div_mult_mod_eq)
  finally show ?thesis .
qed

lemma Utf8_Decode_Encode_unit: "Utf8_Decode (Utf8_Encode c @ bs) = c # Utf8_Decode bs"
proof -
  define n where "n = unat c"
  have n: "n < 65536"
    using unsigned_less [of c, where ?'a = nat] by (simp add: n_def)
  have c: "of_nat n = c"
    by (simp add: n_def)
  consider "n < 128" | "128 \<le> n" "n < 2048" | "2048 \<le> n"
    by linarith
  then show ?thesis
  proof cases
    case 1
    then have "Utf8_Encode c = [char_of n]"
      by (simp add: Utf8_Encode_def n_def)
    moreover have "(of_char (char_of n) :: nat) = n"
      using 1 by simp
    ultimately show ?thesis
      using 1 c by (simp add: Utf8_Decode_one)
  next
    case 2
    then have e: "Utf8_Encode c = [char_of (192 + n div 64), char_of (128 + n mod 64)]"
      by (simp add: Utf8_Encode_def n_def Let_def)
    have d: "n div 64 < 32"
      using 2 by simp
    have b0: "(of_char (char_of (192 + n div 64)) :: nat) = 192 + n div 64"
      using d by simp
    have b1: "(of_char (char_of (128 + n mod 64)) :: nat) = 128 + n mod 64"
      by simp
    have v: "(192 + n div 64 - 192) * 64 + (128 + n mod 64 - 128) = n"
      by simp
    have "Utf8_Decode (char_of (192 + n div 64) # char_of (128 + n mod 64) # bs)
        = of_nat ((of_char (char_of (192 + n div 64)) - 192) * 64
            + (of_char (char_of (128 + n mod 64)) - 128)) # Utf8_Decode bs"
    proof (rule Utf8_Decode_two)
      show "192 \<le> (of_char (char_of (192 + n div 64)) :: nat)"
        unfolding b0 by simp
      show "(of_char (char_of (192 + n div 64)) :: nat) < 224"
        unfolding b0 using d by simp
      show "is_continuation (char_of (128 + n mod 64))"
        unfolding is_continuation_def b1 by simp
      show "128 \<le> (of_char (char_of (192 + n div 64)) - 192) * 64
          + (of_char (char_of (128 + n mod 64)) - 128 :: nat)"
        unfolding b0 b1 v using 2 by simp
    qed
    then show ?thesis
      unfolding b0 b1 v e using c by simp
  next
    case 3
    then have e: "Utf8_Encode c = [char_of (224 + n div 4096), char_of (128 + n div 64 mod 64),
        char_of (128 + n mod 64)]"
      by (simp add: Utf8_Encode_def n_def Let_def)
    have d: "n div 4096 < 16"
      using n by simp
    have b0: "(of_char (char_of (224 + n div 4096)) :: nat) = 224 + n div 4096"
      using d by simp
    have b1: "(of_char (char_of (128 + n div 64 mod 64)) :: nat) = 128 + n div 64 mod 64"
      by simp
    have b2: "(of_char (char_of (128 + n mod 64)) :: nat) = 128 + n mod 64"
      by simp
    have v: "(224 + n div 4096 - 224) * 4096 + (128 + n div 64 mod 64 - 128) * 64
        + (128 + n mod 64 - 128) = n"
      using utf8_three_parts [of n] by simp
    have "Utf8_Decode (char_of (224 + n div 4096) # char_of (128 + n div 64 mod 64)
          # char_of (128 + n mod 64) # bs)
        = of_nat ((of_char (char_of (224 + n div 4096)) - 224) * 4096
            + (of_char (char_of (128 + n div 64 mod 64)) - 128) * 64
            + (of_char (char_of (128 + n mod 64)) - 128)) # Utf8_Decode bs"
    proof (rule Utf8_Decode_three)
      show "224 \<le> (of_char (char_of (224 + n div 4096)) :: nat)"
        unfolding b0 by simp
      show "(of_char (char_of (224 + n div 4096)) :: nat) < 240"
        unfolding b0 using d by simp
      show "is_continuation (char_of (128 + n div 64 mod 64))"
        unfolding is_continuation_def b1 by simp
      show "is_continuation (char_of (128 + n mod 64))"
        unfolding is_continuation_def b2 by simp
      show "2048 \<le> (of_char (char_of (224 + n div 4096)) - 224) * 4096
          + (of_char (char_of (128 + n div 64 mod 64)) - 128) * 64
          + (of_char (char_of (128 + n mod 64)) - 128 :: nat)"
        unfolding b0 b1 b2 v using 3 by simp
    qed
    then show ?thesis
      unfolding b0 b1 b2 v e using c by simp
  qed
qed

lemma Utf8_Decode_Encode: "Utf8_Decode (concat (map Utf8_Encode s)) = s"
proof (induction s)
  case Nil
  show ?case by simp
next
  case (Cons c s)
  then show ?case
    using Utf8_Decode_Encode_unit [of c "concat (map Utf8_Encode s)"] by simp
qed

lemma take_Utf8Length: "take (Utf8Length s) (concat (map Utf8_Encode s)) = concat (map Utf8_Encode s)"
  by (simp add: Utf8Length_concat)

lemma String_roundtrip: "to_v8 (from_v8 (V8String s)) = V8String s"
  by (simp add: from_v8_String WriteUtf8_exact String_New_def take_Utf8Length Utf8_Decode_Encode)

subsection \<open>Objects\<close>

text \<open>
  The members of a \<^verbatim>\<open>JsObj\<close> are the encoded properties under the converted names, in
  ascending order of these; for ASCII names \<^verbatim>\<open>String::New\<close> undoes the conversion,
  and the conversion keeps the order of the names. The decoder sets the properties in
  that order, and the object it builds enumerates them as V8 does.
\<close>

lemma JsObj_loop_values_gen:
  "snd ` set (foldl JsObj_insert acc ps) \<subseteq> snd ` set acc \<union> snd ` set ps"
proof (induction ps arbitrary: acc)
  case Nil
  then show ?case by simp
next
  case (Cons p ps)
  have "snd ` set (JsObj_insert acc p) \<subseteq> insert (snd p) (snd ` set acc)"
    using set_map_assign_subset [of "AsciiValue (fst p)" "snd p" acc]
    by (auto simp: JsObj_insert_def)
  with Cons [of "JsObj_insert acc p"] show ?case by auto
qed

lemma JsObj_loop_values: "snd ` set (JsObj_loop ps) \<subseteq> snd ` set ps"
  using JsObj_loop_values_gen [of "[]" ps] by (simp add: JsObj_loop_def)

lemma map_ok_foldl_JsObj_insert: "map_ok acc \<Longrightarrow> map_ok (foldl JsObj_insert acc ps)"
  by (induction ps arbitrary: acc) (simp_all add: JsObj_insert_def map_ok_assign)

lemma map_ok_JsObj_loop: "map_ok (JsObj_loop ps)"
  using map_ok_foldl_JsObj_insert [of "[]" ps] by (simp add: JsObj_loop_def map_ok_def)

lemma fst_set_foldl_JsObj_insert:
  "fst ` set (foldl JsObj_insert acc ps) = fst ` set acc \<union> (\<lambda>p. AsciiValue (fst p)) ` set ps"
  by (induction ps arbitrary: acc) (auto simp: JsObj_insert_def fst_set_map_assign)

lemma set_foldl_JsObj_insert:
  assumes "map_ok acc"
    and "distinct (map (\<lambda>p. AsciiValue (fst p)) ps)"
    and "\<forall>p \<in> set ps. AsciiValue (fst p) \<notin> fst ` set acc"
  shows "set (foldl JsObj_insert acc ps)
    = set acc \<union> (\<lambda>p. (AsciiValue (fst p), snd p)) ` set ps"
  using assms
proof (induction ps arbitrary: acc)
  case Nil
  show ?case by simp
next
  case (Cons p ps)
  let ?acc = "JsObj_insert acc p"
  have ok: "map_ok ?acc"
    using Cons.prems(1) by (simp add: JsObj_insert_def map_ok_assign)
  have new: "{q \<in> set acc. fst q \<noteq> AsciiValue (fst p)} = set acc"
    using Cons.prems(3) by force
  have s: "set ?acc = insert (AsciiValue (fst p), snd p) (set acc)"
    using set_map_assign [OF Cons.prems(1), of "AsciiValue (fst p)" "snd p"] new
    by (simp add: JsObj_insert_def)
  have d: "distinct (map (\<lambda>p. AsciiValue (fst p)) ps)"
    using Cons.prems(2) by simp
  have n: "\<forall>q \<in> set ps. AsciiValue (fst q) \<notin> fst ` set ?acc"
  proof
    fix q assume q: "q \<in> set ps"
    from Cons.prems(2) have "AsciiValue (fst p) \<notin> (\<lambda>p. AsciiValue (fst p)) ` set ps"
      by simp
    with q have "AsciiValue (fst q) \<noteq> AsciiValue (fst p)"
      by (metis imageI)
    moreover from q Cons.prems(3) have "AsciiValue (fst q) \<notin> fst ` set acc"
      by simp
    ultimately show "AsciiValue (fst q) \<notin> fst ` set ?acc"
      unfolding s by simp
  qed
  from Cons.IH [OF ok d n] s show ?case by auto
qed

lemma set_JsObj_loop:
  "distinct (map (\<lambda>p. AsciiValue (fst p)) ps)
   \<Longrightarrow> set (JsObj_loop ps) = (\<lambda>p. (AsciiValue (fst p), snd p)) ` set ps"
  using set_foldl_JsObj_insert [of "[]" ps] by (simp add: JsObj_loop_def map_ok_def)

lemma WriteAscii_char_ascii:
  "0 < unat c \<Longrightarrow> unat c < 128 \<Longrightarrow> (of_char (WriteAscii_char c) :: nat) = unat c"
  by (simp add: WriteAscii_char_def)

lemma ascii_key_Cons: "ascii_key (c # k) = (0 < unat c \<and> unat c < 128 \<and> ascii_key k)"
  by (simp add: ascii_key_def)

lemma c_str_AsciiValue: "c_str (AsciiValue k) = AsciiValue k"
proof -
  have "WriteAscii_char c \<noteq> CHR 0x00" for c
  proof (cases "unat c mod 256 = 0")
    case True
    then show ?thesis by (simp add: WriteAscii_char_def)
  next
    case False
    have "(of_char (char_of (unat c)) :: nat) = unat c mod 256"
      by simp
    with False have "(of_char (char_of (unat c)) :: nat) \<noteq> of_char (CHR 0x00)"
      by simp
    then have "char_of (unat c) \<noteq> CHR 0x00"
      by metis
    with False show ?thesis by (simp add: WriteAscii_char_def)
  qed
  then have "\<forall>b \<in> set (AsciiValue k). b \<noteq> CHR 0x00"
    by (auto simp: AsciiValue_def)
  then show ?thesis
    by (simp add: c_str_def takeWhile_eq_all_conv)
qed

lemma Utf8_Decode_AsciiValue: "ascii_key k \<Longrightarrow> Utf8_Decode (AsciiValue k) = k"
proof (induction k)
  case Nil
  show ?case by (simp add: AsciiValue_def)
next
  case (Cons c k)
  from Cons.prems have c: "0 < unat c" "unat c < 128" and k: "ascii_key k"
    by (simp_all add: ascii_key_Cons)
  have b: "(of_char (WriteAscii_char c) :: nat) = unat c"
    using c by (rule WriteAscii_char_ascii)
  have "Utf8_Decode (WriteAscii_char c # AsciiValue k)
      = of_nat (of_char (WriteAscii_char c)) # Utf8_Decode (AsciiValue k)"
    by (rule Utf8_Decode_one) (simp add: b c)
  with Cons.IH [OF k] b show ?case
    by (simp add: AsciiValue_def)
qed

lemma String_New_cstr_AsciiValue: "ascii_key k \<Longrightarrow> String_New_cstr (AsciiValue k) = k"
  by (simp add: String_New_cstr_def c_str_AsciiValue Utf8_Decode_AsciiValue)

lemma AsciiValue_less:
  "ascii_key k1 \<Longrightarrow> ascii_key k2 \<Longrightarrow> (AsciiValue k1 < AsciiValue k2) = (k1 < k2)"
proof (induction k1 arbitrary: k2)
  case Nil
  show ?case by (cases k2) (simp_all add: AsciiValue_def)
next
  case (Cons c k1)
  show ?case
  proof (cases k2)
    case Nil
    then show ?thesis by (simp add: AsciiValue_def)
  next
    case (Cons d k2')
    from Cons.prems(1) have c: "0 < unat c" "unat c < 128" and k1: "ascii_key k1"
      by (simp_all add: ascii_key_Cons)
    from Cons.prems(2) Cons have d: "0 < unat d" "unat d < 128" and k2: "ascii_key k2'"
      by (simp_all add: ascii_key_Cons)
    have lt: "(WriteAscii_char c < WriteAscii_char d) = (c < d)"
      using WriteAscii_char_ascii [OF c] WriteAscii_char_ascii [OF d]
      by (simp add: less_char_def word_less_nat_alt)
    have eq: "(WriteAscii_char c = WriteAscii_char d) = (c = d)"
    proof
      assume "WriteAscii_char c = WriteAscii_char d"
      then have "(of_char (WriteAscii_char c) :: nat) = of_char (WriteAscii_char d)"
        by simp
      then have "unat c = unat d"
        using WriteAscii_char_ascii [OF c] WriteAscii_char_ascii [OF d] by simp
      then show "c = d" by (simp add: word_unat_eq_iff)
    qed simp
    have "(AsciiValue k1 < AsciiValue k2') = (k1 < k2')"
      using k1 k2 by (rule Cons.IH)
    with lt eq Cons show ?thesis
      by (simp add: AsciiValue_def)
  qed
qed

lemma pairs_sorted_unique:
  assumes "sorted (map fst xs)" "distinct (map fst xs)"
    and "sorted (map fst ys)" "distinct (map fst ys)"
    and "set xs = set ys"
  shows "xs = ys"
proof -
  have "inj_on fst (set xs)"
    using assms(2) by (simp add: distinct_map)
  with assms(5) have "inj_on fst (set xs \<union> set ys)"
    by simp
  then show ?thesis
    using assms by (rule map_sorted_distinct_set_unique)
qed

lemma digits_of_digits: "c \<in> set (digits_of n) \<Longrightarrow> 48 \<le> unat c \<and> unat c \<le> 57"
proof (induction n rule: digits_of.induct)
  case (1 n)
  show ?case
  proof (cases "n < 10")
    case True
    with "1.prems" have "c = of_nat (48 + n)"
      by (simp add: digits_of.simps [of n])
    moreover have "unat (of_nat (48 + n) :: uc16) = 48 + n"
      unfolding unat_of_nat using True by simp
    ultimately show ?thesis
      using True by simp
  next
    case False
    with "1.prems" have "c \<in> set (digits_of (n div 10)) \<or> c = of_nat (48 + n mod 10)"
      by (auto simp: digits_of.simps [of n])
    moreover have "unat (of_nat (48 + n mod 10) :: uc16) = 48 + n mod 10"
      unfolding unat_of_nat by simp
    ultimately show ?thesis
      using "1.IH" [OF False] by auto
  qed
qed

lemma array_index_None:
  "c \<in> set k \<Longrightarrow> unat c < 48 \<or> 57 < unat c \<Longrightarrow> array_index k = None"
  using digits_of_digits [of c "digits_value k"] by (auto simp: array_index_def)

lemma not_index_hd: "unat c < 48 \<or> 57 < unat c \<Longrightarrow> array_index (c # k) = None"
  by (rule array_index_None [of c]) simp_all

lemma array_index_inj: "array_index k = Some n \<Longrightarrow> array_index k' = Some n \<Longrightarrow> k = k'"
  by (metis array_index_def option.distinct(1) option.inject)

lemma element_index_inj:
  "is_array_index p \<Longrightarrow> is_array_index q \<Longrightarrow> element_index p = element_index q \<Longrightarrow> fst p = fst q"
  by (auto simp: is_array_index_def element_index_def intro: array_index_inj)

lemma insert_element_split:
  assumes "\<forall>p \<in> set A. is_array_index p" and "\<forall>p \<in> set B. \<not> is_array_index p"
  shows "insert_element e (A @ B) = insort_key element_index e A @ B"
  using assms(1)
proof (induction A)
  case Nil
  show ?case
    using assms(2) by (cases B) (simp_all add: is_array_index_def)
next
  case (Cons a A)
  then show ?case
    by (auto simp: is_array_index_def)
qed

lemma sort_key_snoc:
  "f x \<notin> f ` set ys \<Longrightarrow> sort_key f (ys @ [x]) = insort_key f x (sort_key f ys)"
proof (induction ys)
  case Nil
  show ?case by simp
next
  case (Cons y ys)
  then have "f x \<noteq> f y" and "f x \<notin> f ` set ys"
    by auto
  with Cons.IH show ?case
    by (simp add: insort_key_left_comm)
qed

lemma set_enumeration_order: "set (enumeration_order ps) = set ps"
  by (auto simp: enumeration_order_def)

lemma foldl_Object_Set:
  "distinct (map fst L) \<Longrightarrow> proto_name \<notin> fst ` set L
   \<Longrightarrow> foldl (\<lambda>obj p. Object_Set (fst p) (snd p) obj) [] L = enumeration_order L"
proof (induction L rule: rev_induct)
  case Nil
  show ?case by (simp add: enumeration_order_def)
next
  case (snoc x xs)
  from snoc.prems have d: "distinct (map fst xs)" and n: "proto_name \<notin> fst ` set xs"
    and x: "fst x \<noteq> proto_name" and new: "fst x \<notin> fst ` set xs"
    by auto
  have ih: "foldl (\<lambda>obj p. Object_Set (fst p) (snd p) obj) [] xs = enumeration_order xs"
    using d n by (rule snoc.IH)
  have new': "fst x \<notin> set (map fst (enumeration_order xs))"
    using new by (simp add: set_enumeration_order)
  show ?case
  proof (cases "is_array_index x")
    case False
    then have "Object_Set (fst x) (snd x) (enumeration_order xs) = enumeration_order xs @ [x]"
      using x new' by (simp add: Object_Set_def is_array_index_def)
    with False ih show ?thesis
      by (simp add: enumeration_order_def)
  next
    case True
    let ?A = "sort_key element_index (filter is_array_index xs)"
    let ?B = "filter (\<lambda>p. \<not> is_array_index p) xs"
    have "Object_Set (fst x) (snd x) (enumeration_order xs) = insert_element x (enumeration_order xs)"
      using True x new' by (auto simp: Object_Set_def is_array_index_def)
    also have "\<dots> = insort_key element_index x ?A @ ?B"
      unfolding enumeration_order_def by (rule insert_element_split) simp_all
    also have "insort_key element_index x ?A
        = sort_key element_index (filter is_array_index xs @ [x])"
    proof (rule sort_key_snoc [symmetric])
      show "element_index x \<notin> element_index ` set (filter is_array_index xs)"
      proof
        assume "element_index x \<in> element_index ` set (filter is_array_index xs)"
        then obtain y where y: "y \<in> set xs" "is_array_index y" "element_index x = element_index y"
          by auto
        with True have "fst x = fst y"
          by (intro element_index_inj)
        with y(1) new show False
          by auto
      qed
    qed
    finally show ?thesis
      using True ih by (simp add: enumeration_order_def)
  qed
qed

lemma JsObj_to_v8_loop_Object_Set:
  "JsObj_to_v8_loop qs
    = foldl (\<lambda>obj p. Object_Set (fst p) (snd p) obj) []
        (map (\<lambda>p. (String_New_cstr (fst p), snd p)) qs)"
  by (simp add: JsObj_to_v8_loop_def foldl_map JsObj_set_def [abs_def])

lemma object_calls:
  assumes dist: "distinct (map fst ps)"
    and ascii: "\<forall>p \<in> set ps. ascii_key (fst p)"
  shows "map (\<lambda>p. (String_New_cstr (fst p), snd p)) (map (\<lambda>p. (fst p, g (snd p)))
            (JsObj_loop (map (\<lambda>p. (fst p, f (snd p))) ps)))
    = sort_key fst (map (\<lambda>p. (fst p, g (f (snd p)))) ps)"
proof -
  define xs where "xs = map (\<lambda>p. (fst p, f (snd p))) ps"
  define M where "M = JsObj_loop xs"
  define N where "N = map (\<lambda>p. (fst p, g (snd p))) M"
  define R where "R = map (\<lambda>p. (String_New_cstr (fst p), snd p)) N"
  define C where "C = sort_key fst (map (\<lambda>p. (fst p, g (f (snd p)))) ps)"
  have inj: "inj_on AsciiValue (fst ` set ps)"
    using ascii by (intro inj_on_inverseI [of _ String_New_cstr]) (auto simp: String_New_cstr_AsciiValue)
  have "distinct (map AsciiValue (map fst ps))"
    using dist inj by (simp only: distinct_map set_map simp_thms)
  moreover have "map (\<lambda>p. AsciiValue (fst p)) xs = map AsciiValue (map fst ps)"
    by (simp add: xs_def comp_def)
  ultimately have dxs: "distinct (map (\<lambda>p. AsciiValue (fst p)) xs)"
    by (simp only:)
  have setM: "set M = (\<lambda>p. (AsciiValue (fst p), f (snd p))) ` set ps"
    using set_JsObj_loop [OF dxs] by (simp add: M_def xs_def image_image)
  have okM: "sorted_wrt (<) (map fst M)"
    using map_ok_JsObj_loop [of xs] by (simp add: M_def map_ok_def)
  have keysM: "\<forall>q \<in> set M. \<exists>p \<in> set ps. fst q = AsciiValue (fst p)"
    using setM by auto
  have key_back: "String_New_cstr (fst q) = fst p"
    if "p \<in> set ps" "fst q = AsciiValue (fst p)" for p and q :: "string \<times> JsValue"
    using that ascii by (simp add: String_New_cstr_AsciiValue)
  have keys_less: "String_New_cstr (fst q) < String_New_cstr (fst r)"
    if q: "q \<in> set M" and r: "r \<in> set M" and lt: "fst q < fst r" for q r
  proof -
    from q keysM obtain p where p: "p \<in> set ps" "fst q = AsciiValue (fst p)" by blast
    from r keysM obtain p' where p': "p' \<in> set ps" "fst r = AsciiValue (fst p')" by blast
    from lt p p' ascii have "fst p < fst p'"
      by (simp add: AsciiValue_less)
    with key_back [OF p] key_back [OF p'] show ?thesis by simp
  qed
  have "sorted_wrt (\<lambda>q r. fst q < fst r) M"
    using okM by (simp add: sorted_wrt_map)
  then have "sorted_wrt (\<lambda>q r. String_New_cstr (fst q) < String_New_cstr (fst r)) M"
    by (rule sorted_wrt_mono_rel [rotated]) (rule keys_less)
  then have sR: "sorted_wrt (<) (map fst R)"
    by (simp add: R_def N_def sorted_wrt_map comp_def)
  then have sortedR: "sorted (map fst R)" and distR: "distinct (map fst R)"
    by (simp_all add: strict_sorted_iff)
  have setR: "set R = (\<lambda>p. (fst p, g (f (snd p)))) ` set ps"
  proof -
    have "set R = (\<lambda>q. (String_New_cstr (fst q), g (snd q))) ` set M"
      by (simp add: R_def N_def image_image)
    also have "\<dots> = (\<lambda>p. (String_New_cstr (AsciiValue (fst p)), g (f (snd p)))) ` set ps"
      unfolding setM by (simp add: image_image)
    also have "\<dots> = (\<lambda>p. (fst p, g (f (snd p)))) ` set ps"
      using ascii by (intro image_cong) (simp_all add: String_New_cstr_AsciiValue)
    finally show ?thesis .
  qed
  have sortedC: "sorted (map fst C)"
    by (simp add: C_def)
  define L where "L = map (\<lambda>p. (fst p, g (f (snd p)))) ps"
  have "map fst L = map fst ps"
    by (simp add: L_def comp_def)
  with dist have "distinct (map fst L)"
    by (simp only:)
  then have "distinct L \<and> inj_on fst (set L)"
    by (simp only: distinct_map)
  then have distC: "distinct (map fst C)"
    by (simp add: C_def L_def [symmetric] distinct_map)
  have setC: "set C = (\<lambda>p. (fst p, g (f (snd p)))) ` set ps"
    by (simp add: C_def)
  have "R = C"
    using sortedR distR sortedC distC by (rule pairs_sorted_unique) (simp add: setR setC)
  then show ?thesis
    by (simp add: R_def N_def M_def xs_def C_def)
qed

lemma object_decode:
  assumes dist: "distinct (map fst ps)"
    and ascii: "\<forall>p \<in> set ps. ascii_key (fst p)"
    and proto: "\<forall>p \<in> set ps. fst p \<noteq> proto_name"
  shows "JsObj_to_v8_loop (map (\<lambda>p. (fst p, g (snd p)))
            (JsObj_loop (map (\<lambda>p. (fst p, f (snd p))) ps)))
    = enumeration_order (sort_key fst (map (\<lambda>p. (fst p, g (f (snd p)))) ps))"
proof -
  let ?C = "sort_key fst (map (\<lambda>p. (fst p, g (f (snd p)))) ps)"
  define L where "L = map (\<lambda>p. (fst p, g (f (snd p)))) ps"
  have names: "map fst L = map fst ps"
    by (simp add: L_def comp_def)
  with dist have "distinct (map fst L)"
    by (simp only:)
  then have "distinct L \<and> inj_on fst (set L)"
    by (simp only: distinct_map)
  then have d: "distinct (map fst ?C)"
    by (simp add: L_def [symmetric] distinct_map)
  have "fst ` set ?C = fst ` set ps"
    by (simp add: image_image)
  with proto have n: "proto_name \<notin> fst ` set ?C"
    by (simp only:) auto
  show ?thesis
    unfolding JsObj_to_v8_loop_Object_Set object_calls [OF dist ascii]
    using d n by (rule foldl_Object_Set)
qed

subsection \<open>Structural equality\<close>

text \<open>
  Two objects with distinct names and the same properties up to the normal form of the
  values have the same normal form; on plain values with ASCII property names other
  than \<^verbatim>\<open>__proto__\<close>, decoding after encoding keeps the normal form.
\<close>

lemma canon_Object_eq:
  assumes "distinct (map fst R)" and "distinct (map fst ps)"
    and "(\<lambda>p. (fst p, canon (snd p))) ` set R = (\<lambda>p. (fst p, canon (snd p))) ` set ps"
  shows "canon (V8Object R) = canon (V8Object ps)"
proof -
  have d: "distinct (map fst (sort_key fst (map (\<lambda>p. (fst p, canon (snd p))) xs)))"
    if "distinct (map fst xs)" for xs :: "(v8_string \<times> v8_value) list"
  proof -
    define L where "L = map (\<lambda>p. (fst p, canon (snd p))) xs"
    have "map fst L = map fst xs"
      by (simp add: L_def comp_def)
    with that have "distinct (map fst L)"
      by (simp only:)
    then have "distinct L \<and> inj_on fst (set L)"
      by (simp only: distinct_map)
    then show ?thesis
      by (simp add: L_def [symmetric] distinct_map)
  qed
  have "sort_key fst (map (\<lambda>p. (fst p, canon (snd p))) R)
      = sort_key fst (map (\<lambda>p. (fst p, canon (snd p))) ps)"
    using sorted_sort_key d [OF assms(1)] sorted_sort_key d [OF assms(2)]
    by (rule pairs_sorted_unique) (simp add: assms(3))
  then show ?thesis
    by simp
qed

lemma roundtrip_struct_eq:
  "plain v \<Longrightarrow> ascii_keys v \<Longrightarrow> proto_free v \<Longrightarrow> canon (to_v8 (from_v8 v)) = canon v"
proof (induction v rule: from_v8.induct)
  case (1 v)
  show ?case
  proof (cases v)
    case (V8Number d)
    then show ?thesis by (simp add: Number_roundtrip)
  next
    case (V8String s)
    then show ?thesis by (simp add: String_roundtrip)
  next
    case (V8Array xs)
    with 1 have "\<forall>x \<in> set xs. canon (to_v8 (from_v8 x)) = canon x"
      by (simp add: list_all_iff)
    with V8Array show ?thesis
      by (simp add: from_v8_Array)
  next
    case (V8Object ps)
    with 1 have ih: "\<forall>p \<in> set ps. canon (to_v8 (from_v8 (snd p))) = canon (snd p)"
      by (simp add: list_all_iff)
    from V8Object "1.prems" have d: "distinct (map fst ps)"
      and a: "\<forall>p \<in> set ps. ascii_key (fst p)" and n: "\<forall>p \<in> set ps. fst p \<noteq> proto_name"
      by (simp_all add: list_all_iff)
    let ?R = "enumeration_order (sort_key fst (map (\<lambda>p. (fst p, to_v8 (from_v8 (snd p)))) ps))"
    have r: "to_v8 (from_v8 v) = V8Object ?R"
      using object_decode [OF d a n, of to_v8 from_v8] V8Object by (simp add: from_v8_Object)
    have setR: "set ?R = (\<lambda>p. (fst p, to_v8 (from_v8 (snd p)))) ` set ps"
      by (simp add: set_enumeration_order)
    have dR: "distinct (map fst ?R)"
    proof -
      have "inj_on fst (set ?R)"
        unfolding setR using d by (auto simp: inj_on_def distinct_map)
      moreover have "distinct ?R"
        using d by (auto simp: enumeration_order_def distinct_map inj_on_def)
      ultimately show ?thesis
        by (simp add: distinct_map)
    qed
    have "(\<lambda>p. (fst p, canon (snd p))) ` set ?R = (\<lambda>p. (fst p, canon (snd p))) ` set ps"
      unfolding setR using ih by (force simp: image_image)
    with dR d have "canon (V8Object ?R) = canon (V8Object ps)"
      by (rule canon_Object_eq)
    with r V8Object show ?thesis
      by simp
  next
    case V8Undefined
    with "1.prems" show ?thesis by simp
  next
    case V8Null
    with "1.prems" show ?thesis by simp
  next
    case (V8Boolean b)
    with "1.prems" show ?thesis by simp
  next
    case (V8Function ps)
    with "1.prems" show ?thesis by simp
  qed
qed

subsection \<open>The keys of the store\<close>

text \<open>
  Every key \<^verbatim>\<open>IntegerValue\<close> returns is a 64-bit signed integer, and an integer of
  that range passed as a number is read as itself. After any sequence of calls on a new
  store the keys of \<^verbatim>\<open>m_cache\<close> are strictly ascending, and \<^verbatim>\<open>list\<close> returns them
  as they are when all of them are in the signed 32-bit range.
\<close>

lemma Arguments_get_simps [simp]:
  "Arguments_get [] i = V8Undefined"
  "Arguments_get (a # as) 0 = a"
  "Arguments_get (a # as) (Suc i) = Arguments_get as i"
  by (simp_all add: Arguments_get_def)

lemma Arguments_get_1 [simp]: "Arguments_get (a # as) 1 = Arguments_get as 0"
  by (simp add: Arguments_get_def)

lemma double_to_int64_range: "- (2 ^ 63) \<le> double_to_int64 d \<and> double_to_int64 d < 2 ^ 63"
  by (cases d) simp_all

lemma IntegerValue_range: "- (2 ^ 63) \<le> IntegerValue prim v \<and> IntegerValue prim v < 2 ^ 63"
  unfolding IntegerValue_def using double_to_int64_range by (cases "IsNumber v") presburger+

lemma IntegerValue_of_int:
  "- (2 ^ 63) \<le> k \<Longrightarrow> k < 2 ^ 63 \<Longrightarrow> IntegerValue prim (V8Number (Finite (real_of_int k))) = k"
  by (simp add: IntegerValue_def)

lemma IntegerValue_numeral [simp]:
  "IntegerValue prim (V8Number (Finite (numeral n))) =
     (if (numeral n :: int) < 2 ^ 63 then numeral n else - (2 ^ 63))"
  by (simp add: IntegerValue_def)

lemma IntegerValue_0 [simp]: "IntegerValue prim (V8Number (Finite 0)) = 0"
  by (simp add: IntegerValue_def)

lemma IntegerValue_1 [simp]: "IntegerValue prim (V8Number (Finite 1)) = 1"
  by (simp add: IntegerValue_def)

lemma exec_call_never_set:
  "never_set prim k [c] \<Longrightarrow> map_find k (m_cache store) = None
   \<Longrightarrow> map_find k (m_cache (snd (exec_call prim store c))) = None"
  by (cases c)
     (auto simp: BypassStore_Set_def BypassStore_Get_def BypassStore_Del_def
         BypassStore_List_def map_find_assign_other map_find_erase_None split: option.split)

lemma never_set_Cons: "never_set prim k (c # cs) = (never_set prim k [c] \<and> never_set prim k cs)"
  by (cases c) auto

lemma run_never_set:
  "never_set prim k calls \<Longrightarrow> map_find k (m_cache store) = None
   \<Longrightarrow> map_find k (m_cache (run prim store calls)) = None"
proof (induction calls arbitrary: store)
  case Nil
  then show ?case by simp
next
  case (Cons c cs)
  from Cons.prems have c: "never_set prim k [c]" and cs: "never_set prim k cs"
    using never_set_Cons [of prim k c cs] by auto
  have "map_find k (m_cache (snd (exec_call prim store c))) = None"
    using exec_call_never_set [OF c Cons.prems(2)] .
  from Cons.IH [OF cs this] show ?case by simp
qed

lemma map_ok_exec_call:
  "map_ok (m_cache store) \<Longrightarrow> map_ok (m_cache (snd (exec_call prim store c)))"
  by (cases c)
     (simp_all add: BypassStore_Set_def BypassStore_Get_def BypassStore_Del_def
        BypassStore_List_def map_ok_assign map_ok_erase split: option.split)

lemma map_ok_run: "map_ok (m_cache store) \<Longrightarrow> map_ok (m_cache (run prim store calls))"
  by (induction calls arbitrary: store) (simp_all add: map_ok_exec_call)

lemma list_after_calls:
  "sorted_wrt (<) (map fst (m_cache (run prim BypassStore_New calls)))"
  using map_ok_run [of BypassStore_New prim calls]
  by (simp add: map_ok_def BypassStore_New_def)

lemma list_int32_keys:
  assumes "\<forall>p \<in> set (m_cache store). - (2 ^ 31) \<le> fst p \<and> fst p < 2 ^ 31"
  shows "fst (BypassStore_List store args)
    = V8Array (map (\<lambda>p. V8Number (Finite (real_of_int (fst p)))) (m_cache store))"
proof -
  have "Integer_New (word_of_int (fst p)) = V8Number (Finite (real_of_int (fst p)))"
    if "p \<in> set (m_cache store)" for p
  proof -
    from that assms have "- (2 ^ 31) \<le> fst p" and "fst p < 2 ^ 31"
      by auto
    then have "sint (word_of_int (fst p) :: 32 word) = fst p"
      by (rule sint_word_of_int_32)
    then show ?thesis
      unfolding Integer_New_def by (simp only:)
  qed
  then show ?thesis
    by (simp add: BypassStore_List_def)
qed

subsection \<open>Numbers through the store\<close>

text \<open>
  What holds of the numbers however they are stored: an \<^verbatim>\<open>Int32\<close> value decodes to
  the exact integer it holds, a \<^verbatim>\<open>Number\<close> value to the double it holds, and the
  number 2147483648 is stored as a \<^verbatim>\<open>Number\<close> and comes back from the store as it
  went in.
\<close>

lemma Int32_Number_decode:
  "to_v8 (JsInt32 w) = V8Number (Finite (real_of_int (sint w)))
   \<and> - (2 ^ 31) \<le> sint w \<and> sint w < 2 ^ 31
   \<and> to_v8 (JsNumber d) = V8Number d
   \<and> \<not> IsInt32 (V8Number (Finite 2147483648))
   \<and> from_v8 (V8Number (Finite 2147483648)) = JsNumber (Finite 2147483648)
   \<and> fst (BypassStore_Get prim
        (snd (BypassStore_Set prim store [V8Number (Finite 3), V8Number (Finite 2147483648)]))
        [V8Number (Finite 3)]) = V8Number (Finite 2147483648)"
proof -
  have w: "- (2 ^ 31) \<le> sint w \<and> sint w < 2 ^ 31"
    using sint_ge [of w] sint_lt [of w] by simp
  have n: "from_v8 (V8Number (Finite 2147483648)) = JsNumber (Finite 2147483648)"
    by (simp add: from_v8_Number)
  show ?thesis
    using w n
    by (simp add: Integer_New_def Number_New_def BypassStore_Get_def BypassStore_Set_def
        map_find_assign_same)
qed

section \<open>The claims\<close>

subsection \<open>C1\<close>

text \<open>
  C1 as stated fails on property names outside ASCII: \<^verbatim>\<open>JsObj::from_v8\<close> reads a name
  through \<^verbatim>\<open>String::AsciiValue\<close>, which keeps one byte of each code unit. The plain
  object with the single property named by the code unit 0xE9 (e with acute accent),
  holding the number 1, comes back with the property named by the replacement
  character 0xFFFD: the two objects are not structurally equal.
\<close>

theorem round_trip_counterexample:
  "plain (V8Object [([0xE9], V8Number (Finite 1))])
   \<and> to_v8 (from_v8 (V8Object [([0xE9], V8Number (Finite 1))]))
     = V8Object [([0xFFFD], V8Number (Finite 1))]
   \<and> \<not> struct_eq (to_v8 (from_v8 (V8Object [([0xE9], V8Number (Finite 1))])))
         (V8Object [([0xE9], V8Number (Finite 1))])"
  by (simp add: struct_eq_def from_v8_Object from_v8_Number JsObj_loop_def JsObj_insert_def
      AsciiValue_def WriteAscii_char_def trunc_def JsObj_to_v8_loop_def JsObj_set_def
      String_New_cstr_def c_str_def Integer_New_def char_of_eq_iff take_bit_eq_mod kBadChar_def
      Object_Set_def proto_name_def not_index_hd)

text \<open>
  C1, amended. For every foreign value built only from numbers, strings, arrays and
  plain objects whose property names are ASCII without NUL and other than
  \<^verbatim>\<open>__proto__\<close>, the decoding of the encoding is structurally equal to the value:
  the same value up to the order of the properties of its objects. An integer outside
  the signed 32-bit range is held as a \<^verbatim>\<open>Number\<close>, and a boolean comes back as
  \<^verbatim>\<open>undefined\<close>.
\<close>

theorem round_trip:
  "(plain v \<and> ascii_keys v \<and> proto_free v \<longrightarrow> struct_eq (to_v8 (from_v8 v)) v)
   \<and> (i < - (2 ^ 31) \<or> 2 ^ 31 \<le> i \<longrightarrow>
      from_v8 (V8Number (Finite (real_of_int i))) = JsNumber (Finite (real_of_int i)))
   \<and> to_v8 (from_v8 (V8Boolean b)) = V8Undefined"
proof (intro conjI impI)
  assume "plain v \<and> ascii_keys v \<and> proto_free v"
  then show "struct_eq (to_v8 (from_v8 v)) v"
    by (simp add: struct_eq_def roundtrip_struct_eq)
next
  assume "i < - (2 ^ 31) \<or> 2 ^ 31 \<le> i"
  then have "\<not> IsInt32 (V8Number (Finite (real_of_int i)))"
    by auto
  then show "from_v8 (V8Number (Finite (real_of_int i))) = JsNumber (Finite (real_of_int i))"
    by (simp add: from_v8_Number)
next
  show "to_v8 (from_v8 (V8Boolean b)) = V8Undefined"
    by (simp add: from_v8_Boolean)
qed

theorem round_trip_witness:
  "plain (V8Array [V8Object [([0x62], V8Number (Finite (5 / 2))), ([0x31, 0x30], V8String [0xE9]),
            ([0x39], V8Number (Finite 7))], V8Number (Finite 7)])
   \<and> ascii_keys (V8Array [V8Object [([0x62], V8Number (Finite (5 / 2))),
            ([0x31, 0x30], V8String [0xE9]), ([0x39], V8Number (Finite 7))], V8Number (Finite 7)])
   \<and> proto_free (V8Array [V8Object [([0x62], V8Number (Finite (5 / 2))),
            ([0x31, 0x30], V8String [0xE9]), ([0x39], V8Number (Finite 7))], V8Number (Finite 7)])
   \<and> struct_eq
        (to_v8 (from_v8 (V8Array [V8Object [([0x62], V8Number (Finite (5 / 2))),
            ([0x31, 0x30], V8String [0xE9]), ([0x39], V8Number (Finite 7))], V8Number (Finite 7)])))
        (V8Array [V8Object [([0x62], V8Number (Finite (5 / 2))),
            ([0x31, 0x30], V8String [0xE9]), ([0x39], V8Number (Finite 7))], V8Number (Finite 7)])
   \<and> ((4294967296 :: int) < - (2 ^ 31) \<or> 2 ^ 31 \<le> (4294967296 :: int))
   \<and> from_v8 (V8Number (Finite 4294967296)) = JsNumber (Finite 4294967296)"
  using round_trip [of "V8Array [V8Object [([0x62], V8Number (Finite (5 / 2))),
            ([0x31, 0x30], V8String [0xE9]), ([0x39], V8Number (Finite 7))], V8Number (Finite 7)]"
          4294967296]
  by (simp add: ascii_key_def proto_name_def)

subsection \<open>C2\<close>

text \<open>
  C2. For every key and all values \<open>v\<close>, \<open>v1\<close>, \<open>v2\<close>: \<^verbatim>\<open>get\<close> after \<^verbatim>\<open>set(key, v)\<close>
  returns the decoding of the encoding of \<open>v\<close>; after \<^verbatim>\<open>set(key, v1)\<close> and
  \<^verbatim>\<open>set(key, v2)\<close> it returns that of \<open>v2\<close>, and the store is the one that
  \<^verbatim>\<open>set(key, v2)\<close> alone would have left: nothing of \<open>v1\<close> remains.
\<close>

theorem set_get_coherence:
  "fst (BypassStore_Get prim (snd (BypassStore_Set prim store [key, v])) [key])
     = to_v8 (from_v8 v)
   \<and> fst (BypassStore_Get prim
          (snd (BypassStore_Set prim (snd (BypassStore_Set prim store [key, v1])) [key, v2]))
          [key])
     = to_v8 (from_v8 v2)
   \<and> snd (BypassStore_Set prim (snd (BypassStore_Set prim store [key, v1])) [key, v2])
     = snd (BypassStore_Set prim store [key, v2])"
  by (simp add: BypassStore_Get_def BypassStore_Set_def map_find_assign_same map_assign_twice)

subsection \<open>C3\<close>

text \<open>
  C3 as stated fails for functions: a function is an object for \<^verbatim>\<open>IsObject\<close>, and
  the encoder makes an \<^verbatim>\<open>Object\<close> of its enumerable properties, not \<^verbatim>\<open>Undefined\<close>.
\<close>

theorem encode_classification_counterexample:
  "from_v8 (V8Function []) = JsObj [] \<and> from_v8 (V8Function []) \<noteq> JsUndefined"
  by (simp add: from_v8_Function JsObj_loop_def)

text \<open>
  C3, amended. The encoder tests in this order and the first match wins. A number that
  is an integer of the signed 32-bit range becomes an \<^verbatim>\<open>Int32\<close> holding it, any other
  number (a fraction, a larger integer, an infinity, not-a-number) a \<^verbatim>\<open>Number\<close>
  holding the double. A string becomes a \<^verbatim>\<open>String\<close> holding the UTF-8 bytes of its
  code units and their count. An array becomes an \<^verbatim>\<open>Array\<close> of its encoded elements
  in index order. Any other object, a function included, becomes an \<^verbatim>\<open>Object\<close> built
  from its encoded properties. \<^verbatim>\<open>undefined\<close>, \<^verbatim>\<open>null\<close> and the booleans become
  \<^verbatim>\<open>Undefined\<close>. There is no error result: the encoder is a total function.
\<close>

theorem encode_classification:
  "(- (2 ^ 31) \<le> i \<and> i < 2 ^ 31 \<longrightarrow>
      from_v8 (V8Number (Finite (real_of_int i))) = JsInt32 (word_of_int i)
      \<and> sint (word_of_int i :: 32 word) = i)
   \<and> (\<not> (\<exists>i. d = Finite (real_of_int i) \<and> - (2 ^ 31) \<le> i \<and> i < 2 ^ 31) \<longrightarrow>
      from_v8 (V8Number d) = JsNumber d)
   \<and> from_v8 (V8String s)
       = JsString (concat (map Utf8_Encode s)) (length (concat (map Utf8_Encode s)))
   \<and> from_v8 (V8Array xs) = JsArray (map from_v8 xs)
   \<and> from_v8 (V8Object ps) = JsObj (JsObj_loop (map (\<lambda>p. (fst p, from_v8 (snd p))) ps))
   \<and> from_v8 (V8Function ps) = JsObj (JsObj_loop (map (\<lambda>p. (fst p, from_v8 (snd p))) ps))
   \<and> from_v8 V8Undefined = JsUndefined
   \<and> from_v8 V8Null = JsUndefined
   \<and> from_v8 (V8Boolean b) = JsUndefined"
proof -
  have a: "from_v8 (V8Number (Finite (real_of_int i))) = JsInt32 (word_of_int i)
      \<and> sint (word_of_int i :: 32 word) = i" if "- (2 ^ 31) \<le> i \<and> i < 2 ^ 31"
    using that by (simp add: from_v8_Number sint_word_of_int_32 trunc_def)
  have b: "from_v8 (V8Number d) = JsNumber d"
    if "\<not> (\<exists>i. d = Finite (real_of_int i) \<and> - (2 ^ 31) \<le> i \<and> i < 2 ^ 31)"
    using that IsInt32_iff [of d] by (simp add: from_v8_Number)
  have "from_v8 (V8String s) = JsString (concat (map Utf8_Encode s)) (Utf8Length s)"
    by (simp add: from_v8_String WriteUtf8_exact)
  then have c: "from_v8 (V8String s)
       = JsString (concat (map Utf8_Encode s)) (length (concat (map Utf8_Encode s)))"
    by (simp only: Utf8Length_concat)
  show ?thesis
    using a b c
    by (simp add: from_v8_Array from_v8_Object from_v8_Function from_v8_Undefined
        from_v8_Null from_v8_Boolean)
qed

theorem encode_classification_witness:
  "- (2 ^ 31) \<le> (- 5 :: int) \<and> (- 5 :: int) < 2 ^ 31
   \<and> from_v8 (V8Number (Finite (- 5))) = JsInt32 (- 5)
   \<and> \<not> (\<exists>i. Finite (5 / 2) = Finite (real_of_int i) \<and> - (2 ^ 31) \<le> i \<and> i < 2 ^ 31)
   \<and> from_v8 (V8Number (Finite (5 / 2))) = JsNumber (Finite (5 / 2))"
proof -
  have "\<not> IsInt32 (V8Number (Finite (5 / 2)))"
    by simp
  then have h: "\<not> (\<exists>i. Finite (5 / 2) = Finite (real_of_int i) \<and> - (2 ^ 31) \<le> i \<and> i < 2 ^ 31)"
    unfolding IsInt32_iff .
  show ?thesis
    using h encode_classification [of "- 5" "Finite (5 / 2)"]
    by simp
qed

subsection \<open>C4\<close>

text \<open>
  C4. \<^verbatim>\<open>get\<close> returns \<^verbatim>\<open>undefined\<close>, and raises nothing, for a key that no \<^verbatim>\<open>set\<close>
  call since the creation of the store has used, and for a key just deleted; on a key
  with no entry \<^verbatim>\<open>get\<close> and \<^verbatim>\<open>del\<close> leave the store as it is.
\<close>

theorem absent_key_contract:
  "(never_set prim (IntegerValue prim key) calls \<longrightarrow>
      fst (BypassStore_Get prim (run prim BypassStore_New calls) [key]) = V8Undefined)
   \<and> fst (BypassStore_Get prim (snd (BypassStore_Del prim store [key])) [key]) = V8Undefined
   \<and> (map_find (IntegerValue prim key) (m_cache store) = None \<longrightarrow>
      BypassStore_Get prim store [key] = (V8Undefined, store)
      \<and> BypassStore_Del prim store [key] = (V8Undefined, store))"
proof (intro conjI impI)
  assume "never_set prim (IntegerValue prim key) calls"
  then have "map_find (IntegerValue prim key) (m_cache (run prim BypassStore_New calls)) = None"
    by (rule run_never_set) (simp add: BypassStore_New_def)
  then show "fst (BypassStore_Get prim (run prim BypassStore_New calls) [key]) = V8Undefined"
    by (simp add: BypassStore_Get_def)
next
  show "fst (BypassStore_Get prim (snd (BypassStore_Del prim store [key])) [key]) = V8Undefined"
    by (simp add: BypassStore_Get_def BypassStore_Del_def map_find_erase_same)
next
  assume "map_find (IntegerValue prim key) (m_cache store) = None"
  then show "BypassStore_Get prim store [key] = (V8Undefined, store)"
    by (simp add: BypassStore_Get_def)
next
  assume "map_find (IntegerValue prim key) (m_cache store) = None"
  then show "BypassStore_Del prim store [key] = (V8Undefined, store)"
    by (simp add: BypassStore_Del_def map_erase_absent)
qed

theorem absent_key_contract_witness:
  "never_set prim_NaN (IntegerValue prim_NaN (V8Number (Finite 7)))
     [CallSet [V8Number (Finite 1), V8Boolean True], CallDel [V8Number (Finite 7)], CallList []]
   \<and> fst (BypassStore_Get prim_NaN
        (run prim_NaN BypassStore_New
          [CallSet [V8Number (Finite 1), V8Boolean True], CallDel [V8Number (Finite 7)], CallList []])
        [V8Number (Finite 7)]) = V8Undefined
   \<and> map_find (IntegerValue prim_NaN (V8Number (Finite 7))) (m_cache BypassStore_New) = None
   \<and> BypassStore_Get prim_NaN BypassStore_New [V8Number (Finite 7)] = (V8Undefined, BypassStore_New)
   \<and> BypassStore_Del prim_NaN BypassStore_New [V8Number (Finite 7)] = (V8Undefined, BypassStore_New)"
  using absent_key_contract [of prim_NaN "V8Number (Finite 7)"
      "[CallSet [V8Number (Finite 1), V8Boolean True], CallDel [V8Number (Finite 7)], CallList []]"
      BypassStore_New]
  by (simp add: BypassStore_New_def)

subsection \<open>C5\<close>

text \<open>
  C5 holds as long as every key is in the signed 32-bit range. \<^verbatim>\<open>set\<close>, \<^verbatim>\<open>get\<close> and
  \<^verbatim>\<open>del\<close> work on 64-bit keys, but \<^verbatim>\<open>list\<close> hands each key to
  \<^verbatim>\<open>Integer::New(int32_t)\<close>: after \<^verbatim>\<open>set(4294967296, 5)\<close> it returns the key 0,
  which has no entry, and after \<^verbatim>\<open>set(1, 5)\<close> and \<^verbatim>\<open>set(2147483648, 5)\<close> it
  returns 1 and then -2147483648.
\<close>

theorem list_truncates_keys:
  "fst (BypassStore_List (run prim_NaN BypassStore_New
          [CallSet [V8Number (Finite 4294967296), V8Number (Finite 5)]]) [])
     = V8Array [V8Number (Finite 0)]
   \<and> fst (BypassStore_Get prim_NaN (run prim_NaN BypassStore_New
          [CallSet [V8Number (Finite 4294967296), V8Number (Finite 5)]]) [V8Number (Finite 0)])
     = V8Undefined
   \<and> fst (BypassStore_List (run prim_NaN BypassStore_New
          [CallSet [V8Number (Finite 1), V8Number (Finite 5)],
           CallSet [V8Number (Finite 2147483648), V8Number (Finite 5)]]) [])
     = V8Array [V8Number (Finite 1), V8Number (Finite (- 2147483648))]"
  by (simp add: BypassStore_List_def BypassStore_Get_def BypassStore_Set_def BypassStore_New_def
      Integer_New_def from_v8_Number trunc_def)

subsection \<open>C6\<close>

text \<open>
  C6 as stated fails: \<^verbatim>\<open>m_values\<close> is a \<^verbatim>\<open>std::map\<close> and enumerates by ascending
  key, not in the order of the source object. The object with the properties
  \<^verbatim>\<open>b\<close> = 1 and \<^verbatim>\<open>a\<close> = 2, in this order, is stored and decoded with \<^verbatim>\<open>a\<close> first.
\<close>

theorem object_key_order_counterexample:
  "from_v8 (V8Object [([0x62], V8Number (Finite 1)), ([0x61], V8Number (Finite 2))])
     = JsObj [(AsciiValue [0x61], JsInt32 2), (AsciiValue [0x62], JsInt32 1)]
   \<and> to_v8 (from_v8 (V8Object [([0x62], V8Number (Finite 1)), ([0x61], V8Number (Finite 2))]))
     = V8Object [([0x61], V8Number (Finite 2)), ([0x62], V8Number (Finite 1))]
   \<and> to_v8 (from_v8 (V8Object [([0x62], V8Number (Finite 1)), ([0x61], V8Number (Finite 2))]))
     \<noteq> V8Object [([0x62], V8Number (Finite 1)), ([0x61], V8Number (Finite 2))]"
  by (simp add: from_v8_Object from_v8_Number JsObj_loop_def JsObj_insert_def AsciiValue_def
      WriteAscii_char_def less_char_def trunc_def JsObj_to_v8_loop_def JsObj_set_def
      String_New_cstr_def c_str_def Integer_New_def char_of_eq_iff take_bit_eq_mod
      Object_Set_def proto_name_def not_index_hd)

text \<open>
  C6, amended. The \<^verbatim>\<open>Object\<close> value made from a foreign object enumerates its keys
  in strictly ascending byte order, whatever the own-property order of the source;
  its keys are the names of the source as \<^verbatim>\<open>String::AsciiValue\<close> returns them. For
  a source object whose names are ASCII without NUL and other than \<^verbatim>\<open>__proto__\<close>,
  decode sets the source's names, each with the decoding of the encoding of its value,
  in ascending byte order of the names, and the object it returns enumerates them as
  V8 enumerates properties set in that order: the names that are array indices first,
  by ascending number, then the other names in ascending byte order. Without array
  indices that is the ascending order of the names, and the own-property order of the
  source survives when it was ascending.
\<close>

theorem object_key_order:
  "(\<exists>m. from_v8 (V8Object ps) = JsObj m \<and> sorted_wrt (<) (map fst m)
        \<and> fst ` set m = (\<lambda>p. AsciiValue (fst p)) ` set ps)
   \<and> (distinct (map fst ps) \<and> (\<forall>p \<in> set ps. ascii_key (fst p) \<and> fst p \<noteq> proto_name) \<longrightarrow>
        to_v8 (from_v8 (V8Object ps))
          = V8Object (enumeration_order
              (sort_key fst (map (\<lambda>p. (fst p, to_v8 (from_v8 (snd p)))) ps))))
   \<and> (distinct (map fst ps) \<and> (\<forall>p \<in> set ps. ascii_key (fst p) \<and> fst p \<noteq> proto_name)
        \<and> (\<forall>p \<in> set ps. array_index (fst p) = None) \<longrightarrow>
        to_v8 (from_v8 (V8Object ps))
          = V8Object (sort_key fst (map (\<lambda>p. (fst p, to_v8 (from_v8 (snd p)))) ps)))
   \<and> (distinct (map fst ps) \<and> (\<forall>p \<in> set ps. ascii_key (fst p) \<and> fst p \<noteq> proto_name)
        \<and> (\<forall>p \<in> set ps. array_index (fst p) = None) \<and> sorted (map fst ps) \<longrightarrow>
        to_v8 (from_v8 (V8Object ps))
          = V8Object (map (\<lambda>p. (fst p, to_v8 (from_v8 (snd p)))) ps))"
proof -
  let ?xs = "map (\<lambda>p. (fst p, from_v8 (snd p))) ps"
  let ?L = "map (\<lambda>p. (fst p, to_v8 (from_v8 (snd p)))) ps"
  have "sorted_wrt (<) (map fst (JsObj_loop ?xs))"
    using map_ok_JsObj_loop [of ?xs] by (simp add: map_ok_def)
  moreover have "fst ` set (JsObj_loop ?xs) = (\<lambda>p. AsciiValue (fst p)) ` set ps"
    using fst_set_foldl_JsObj_insert [of "[]" ?xs] by (simp add: JsObj_loop_def image_image)
  ultimately have enc: "\<exists>m. from_v8 (V8Object ps) = JsObj m \<and> sorted_wrt (<) (map fst m)
        \<and> fst ` set m = (\<lambda>p. AsciiValue (fst p)) ` set ps"
    by (simp add: from_v8_Object)
  have dec: "to_v8 (from_v8 (V8Object ps)) = V8Object (enumeration_order (sort_key fst ?L))"
    if "distinct (map fst ps) \<and> (\<forall>p \<in> set ps. ascii_key (fst p) \<and> fst p \<noteq> proto_name)"
    using that object_decode [of ps to_v8 from_v8] by (simp add: from_v8_Object)
  have plain_order: "enumeration_order (sort_key fst ?L) = sort_key fst ?L"
    if "\<forall>p \<in> set ps. array_index (fst p) = None"
  proof -
    from that have "\<forall>q \<in> set (sort_key fst ?L). \<not> is_array_index q"
      by (auto simp: is_array_index_def)
    then have "filter is_array_index (sort_key fst ?L) = []"
      and "filter (\<lambda>q. \<not> is_array_index q) (sort_key fst ?L) = sort_key fst ?L"
      by (simp_all add: filter_empty_conv filter_id_conv)
    then show ?thesis
      by (simp add: enumeration_order_def)
  qed
  have kept: "sort_key fst ?L = ?L" if "sorted (map fst ps)"
  proof -
    have "map fst ?L = map fst ps"
      by (simp add: comp_def)
    with that have "sorted (map fst ?L)"
      by (simp only:)
    then show ?thesis
      by (rule sort_key_id_if_sorted)
  qed
  show ?thesis
  proof (intro conjI impI)
    show "\<exists>m. from_v8 (V8Object ps) = JsObj m \<and> sorted_wrt (<) (map fst m)
        \<and> fst ` set m = (\<lambda>p. AsciiValue (fst p)) ` set ps"
      by (rule enc)
  next
    assume "distinct (map fst ps) \<and> (\<forall>p \<in> set ps. ascii_key (fst p) \<and> fst p \<noteq> proto_name)"
    then show "to_v8 (from_v8 (V8Object ps)) = V8Object (enumeration_order (sort_key fst ?L))"
      by (rule dec)
  next
    assume a: "distinct (map fst ps) \<and> (\<forall>p \<in> set ps. ascii_key (fst p) \<and> fst p \<noteq> proto_name)
        \<and> (\<forall>p \<in> set ps. array_index (fst p) = None)"
    then have "to_v8 (from_v8 (V8Object ps)) = V8Object (enumeration_order (sort_key fst ?L))"
      by (intro dec) blast
    with a plain_order show "to_v8 (from_v8 (V8Object ps)) = V8Object (sort_key fst ?L)"
      by simp
  next
    assume a: "distinct (map fst ps) \<and> (\<forall>p \<in> set ps. ascii_key (fst p) \<and> fst p \<noteq> proto_name)
        \<and> (\<forall>p \<in> set ps. array_index (fst p) = None) \<and> sorted (map fst ps)"
    then have "to_v8 (from_v8 (V8Object ps)) = V8Object (enumeration_order (sort_key fst ?L))"
      by (intro dec) blast
    with a plain_order kept show "to_v8 (from_v8 (V8Object ps)) = V8Object ?L"
      by simp
  qed
qed

theorem object_key_order_witness:
  "distinct (map fst [([0x61 :: uc16], V8Boolean True), ([0x62], V8Number (Finite 1))])
   \<and> ascii_key [0x61] \<and> [0x61] \<noteq> proto_name \<and> ascii_key [0x62] \<and> [0x62] \<noteq> proto_name
   \<and> array_index [0x61] = None \<and> array_index [0x62] = None
   \<and> sorted (map fst [([0x61 :: uc16], V8Boolean True), ([0x62], V8Number (Finite 1))])
   \<and> to_v8 (from_v8 (V8Object [([0x61], V8Boolean True), ([0x62], V8Number (Finite 1))]))
     = V8Object [([0x61], V8Undefined), ([0x62], V8Number (Finite 1))]
   \<and> distinct (map fst [([0x62 :: uc16], V8Number (Finite 1)), ([0x31, 0x30], V8Number (Finite 2)),
        ([0x39], V8Number (Finite 3))])
   \<and> ascii_key [0x31, 0x30] \<and> [0x31, 0x30] \<noteq> proto_name
   \<and> ascii_key [0x39] \<and> [0x39] \<noteq> proto_name
   \<and> to_v8 (from_v8 (V8Object [([0x62], V8Number (Finite 1)), ([0x31, 0x30], V8Number (Finite 2)),
        ([0x39], V8Number (Finite 3))]))
     = V8Object [([0x39], V8Number (Finite 3)), ([0x31, 0x30], V8Number (Finite 2)),
        ([0x62], V8Number (Finite 1))]"
  using object_key_order [of "[([0x61], V8Boolean True), ([0x62], V8Number (Finite 1))]"]
    object_key_order [of "[([0x62], V8Number (Finite 1)), ([0x31, 0x30], V8Number (Finite 2)),
        ([0x39], V8Number (Finite 3))]"]
  by (simp add: ascii_key_def proto_name_def from_v8_Boolean Number_roundtrip not_index_hd
      enumeration_order_def is_array_index_def element_index_def array_index_def
      digits_value_def digits_of.simps)

subsection \<open>C7\<close>


subsection \<open>C8\<close>

text \<open>
  C8. For every V8 value, the tree \<^verbatim>\<open>from_v8\<close> builds contains no \<^verbatim>\<open>JsUint32\<close> node,
  at any depth: the class exists and no path of the encoder constructs it.
\<close>

theorem from_v8_no_Uint32: "count_Uint32 (from_v8 v) = 0"
proof (induction v rule: from_v8.induct)
  case (1 v)
  show ?case
  proof (cases v)
    case (V8Array xs)
    with 1 show ?thesis by (simp add: from_v8_Array)
  next
    case (V8Object ps)
    with 1 have ih: "\<forall>p \<in> set ps. count_Uint32 (from_v8 (snd p)) = 0" by simp
    have "\<forall>q \<in> set (JsObj_loop (map (\<lambda>p. (fst p, from_v8 (snd p))) ps)). count_Uint32 (snd q) = 0"
      using JsObj_loop_values [of "map (\<lambda>p. (fst p, from_v8 (snd p))) ps"] ih by fastforce
    with V8Object show ?thesis by (simp add: from_v8_Object)
  next
    case (V8Function ps)
    with 1 have ih: "\<forall>p \<in> set ps. count_Uint32 (from_v8 (snd p)) = 0" by simp
    have "\<forall>q \<in> set (JsObj_loop (map (\<lambda>p. (fst p, from_v8 (snd p))) ps)). count_Uint32 (snd q) = 0"
      using JsObj_loop_values [of "map (\<lambda>p. (fst p, from_v8 (snd p))) ps"] ih by fastforce
    with V8Function show ?thesis by (simp add: from_v8_Function)
  qed (simp_all add: from_v8_eqs)
qed

subsection \<open>C9\<close>

text \<open>
  C9 as stated fails: the key \<^verbatim>\<open>true\<close> is no number and \<^verbatim>\<open>set\<close> stores under the
  key 1, leaving the key 0 without an entry.
\<close>

theorem key_coercion_counterexample:
  "\<not> IsNumber (V8Boolean True)
   \<and> map_find 0 (m_cache (snd (BypassStore_Set prim_NaN BypassStore_New
         [V8Boolean True, V8Number (Finite 5)]))) = None
   \<and> map_find 1 (m_cache (snd (BypassStore_Set prim_NaN BypassStore_New
         [V8Boolean True, V8Number (Finite 5)]))) = Some (JsInt32 5)"
  by (simp add: BypassStore_Set_def BypassStore_New_def IntegerValue_def from_v8_Number trunc_def)

text \<open>
  C9, amended. A missing key argument reads as \<^verbatim>\<open>undefined\<close>, and \<^verbatim>\<open>set\<close>,
  \<^verbatim>\<open>get\<close> and \<^verbatim>\<open>del\<close> coerce to the key 0, without an error, a missing key and
  every key that is no number and that ToInteger takes to 0: \<^verbatim>\<open>undefined\<close>,
  \<^verbatim>\<open>null\<close>, \<^verbatim>\<open>false\<close>, and the strings and objects that convert to not-a-number.
  They behave as the same call with the key 0. The key \<^verbatim>\<open>true\<close> is read as 1.
\<close>

theorem key_coercion:
  "(key = V8Undefined \<or> key = V8Null \<or> key = V8Boolean False
      \<or> (\<not> IsNumber key \<and> ToInteger (ToNumber prim key) = Finite 0) \<longrightarrow>
      IntegerValue prim key = 0
      \<and> BypassStore_Set prim store (key # rest)
          = BypassStore_Set prim store (V8Number (Finite 0) # rest)
      \<and> BypassStore_Get prim store (key # rest)
          = BypassStore_Get prim store (V8Number (Finite 0) # rest)
      \<and> BypassStore_Del prim store (key # rest)
          = BypassStore_Del prim store (V8Number (Finite 0) # rest))
   \<and> BypassStore_Set prim store []
       = (V8Undefined, store\<lparr>m_cache := map_assign 0 JsUndefined (m_cache store)\<rparr>)
   \<and> BypassStore_Get prim store [] = BypassStore_Get prim store [V8Number (Finite 0)]
   \<and> BypassStore_Del prim store [] = BypassStore_Del prim store [V8Number (Finite 0)]
   \<and> IntegerValue prim (V8Boolean True) = 1"
proof -
  have t: "IntegerValue prim (V8Boolean True) = 1"
    by (simp add: IntegerValue_def)
  have k: "IntegerValue prim key = 0"
    if "key = V8Undefined \<or> key = V8Null \<or> key = V8Boolean False
      \<or> (\<not> IsNumber key \<and> ToInteger (ToNumber prim key) = Finite 0)"
    using that by (auto simp: IntegerValue_def)
  have u: "IntegerValue prim V8Undefined = 0"
    by (simp add: IntegerValue_def)
  show ?thesis
    using k u t
    by (simp add: BypassStore_Set_def BypassStore_Get_def BypassStore_Del_def from_v8_Undefined)
qed

theorem key_coercion_witness:
  "\<not> IsNumber (V8String [0x61, 0x62, 0x63]) \<and> ToInteger (ToNumber prim_NaN (V8String [0x61, 0x62, 0x63])) = Finite 0
   \<and> IntegerValue prim_NaN (V8String [0x61, 0x62, 0x63]) = 0
   \<and> BypassStore_Get prim_NaN \<lparr>m_cache = [(0, JsNumber NaN)]\<rparr> [V8String [0x61, 0x62, 0x63]]
       = (V8Number NaN, \<lparr>m_cache = [(0, JsNumber NaN)]\<rparr>)"
  using key_coercion [of "V8String [0x61, 0x62, 0x63]" prim_NaN "\<lparr>m_cache = [(0, JsNumber NaN)]\<rparr>" "[]"]
  by (simp add: prim_NaN_def BypassStore_Get_def Number_New_def)

subsection \<open>C10\<close>

text \<open>
  C10. \<^verbatim>\<open>set\<close> and \<^verbatim>\<open>del\<close> on a key leave the entry of every other key \<open>k'\<close> as it
  was; \<^verbatim>\<open>get\<close> and \<^verbatim>\<open>list\<close> leave the whole store as it was.
\<close>

theorem frame_property:
  "(IntegerValue prim (Arguments_get args 0) \<noteq> k' \<longrightarrow>
      map_find k' (m_cache (snd (BypassStore_Set prim store args))) = map_find k' (m_cache store)
      \<and> map_find k' (m_cache (snd (BypassStore_Del prim store args))) = map_find k' (m_cache store))
   \<and> snd (BypassStore_Get prim store args) = store
   \<and> snd (BypassStore_List store args) = store"
  by (auto simp: BypassStore_Set_def BypassStore_Del_def BypassStore_Get_def BypassStore_List_def
      map_find_assign_other map_find_erase_other split: option.split)

theorem frame_property_witness:
  "IntegerValue prim_NaN (Arguments_get [V8Number (Finite 1), V8Boolean True] 0) \<noteq> 2
   \<and> map_find 2 (m_cache (snd (BypassStore_Set prim_NaN \<lparr>m_cache = [(2, JsNumber NaN)]\<rparr>
         [V8Number (Finite 1), V8Boolean True]))) = Some (JsNumber NaN)
   \<and> map_find 2 (m_cache (snd (BypassStore_Del prim_NaN \<lparr>m_cache = [(2, JsNumber NaN)]\<rparr>
         [V8Number (Finite 1), V8Boolean True]))) = Some (JsNumber NaN)"
  using frame_property [of prim_NaN "[V8Number (Finite 1), V8Boolean True]" 2
      "\<lparr>m_cache = [(2, JsNumber NaN)]\<rparr>"]
  by simp

end
